theory Spec2Isabelle
  imports Complex_Main "HOL-Library.Word" "HOL-Library.Product_Lexorder"
begin

unbundle bit_operations_syntax

section \<open>Python exceptions\<close>

text \<open>
  The converter is Python: a failing operation raises. Every function of the model that
  can raise returns \<open>error + 'a\<close>, with \<open>Inl\<close> carrying the exception.
\<close>

datatype error =
    ValueError | StructError | KeyError | ZeroDivisionError | IndexError | AttributeError
  | OverflowError

text \<open>A loop or comprehension whose body may raise stops at the first exception.\<close>

fun mapE :: "('a \<Rightarrow> error + 'b) \<Rightarrow> 'a list \<Rightarrow> error + 'b list" where
  "mapE f [] = Inr []"
| "mapE f (x # xs) =
     (case f x of
        Inl e \<Rightarrow> Inl e
      | Inr y \<Rightarrow> (case mapE f xs of Inl e \<Rightarrow> Inl e | Inr ys \<Rightarrow> Inr (y # ys)))"

section \<open>Python built-ins used by the converter\<close>

text \<open>\<open>hex(n)\<close>: lower-case digits, no leading zeros, a minus sign before the prefix.\<close>

definition hexchar :: "nat \<Rightarrow> char" where
  "hexchar d = ''0123456789abcdef'' ! d"

function hexdigits :: "nat \<Rightarrow> string" where
  "hexdigits n = (if n < 16 then [hexchar n] else hexdigits (n div 16) @ [hexchar (n mod 16)])"
  by pat_completeness auto
termination
  by (relation "measure id") auto

declare hexdigits.simps [simp del]

definition hex :: "int \<Rightarrow> string" where
  "hex n = (if n < 0 then ''-0x'' @ hexdigits (nat (- n)) else ''0x'' @ hexdigits (nat n))"

text \<open>\<open>str(n)\<close> of an integer: decimal digits, a minus sign when negative.\<close>

definition decchar :: "nat \<Rightarrow> char" where
  "decchar d = ''0123456789'' ! d"

function decdigits :: "nat \<Rightarrow> string" where
  "decdigits n = (if n < 10 then [decchar n] else decdigits (n div 10) @ [decchar (n mod 10)])"
  by pat_completeness auto
termination
  by (relation "measure id") auto

declare decdigits.simps [simp del]

definition str_int :: "int \<Rightarrow> string" where
  "str_int n = (if n < 0 then CHR ''-'' # decdigits (nat (- n)) else decdigits (nat n))"

text \<open>
  \<open>bytes.fromhex(h)\<close>: ASCII white space is skipped before each byte, then two hex
  digits of either case are read; anything else raises \<open>ValueError\<close>.
\<close>

definition hexval :: "char \<Rightarrow> nat option" where
  "hexval c = map_of
     [(CHR ''0'', 0), (CHR ''1'', 1), (CHR ''2'', 2), (CHR ''3'', 3), (CHR ''4'', 4),
      (CHR ''5'', 5), (CHR ''6'', 6), (CHR ''7'', 7), (CHR ''8'', 8), (CHR ''9'', 9),
      (CHR ''a'', 10), (CHR ''b'', 11), (CHR ''c'', 12), (CHR ''d'', 13), (CHR ''e'', 14),
      (CHR ''f'', 15),
      (CHR ''A'', 10), (CHR ''B'', 11), (CHR ''C'', 12), (CHR ''D'', 13), (CHR ''E'', 14),
      (CHR ''F'', 15)] c"

definition isspace :: "char \<Rightarrow> bool" where
  "isspace c = (c \<in> set [CHR '' '', CHR 0x09, CHR 0x0A, CHR 0x0B, CHR 0x0C, CHR 0x0D])"

fun fromhex :: "string \<Rightarrow> error + 8 word list" where
  "fromhex [] = Inr []"
| "fromhex (c # cs) =
     (if isspace c then fromhex cs
      else (case cs of
              [] \<Rightarrow> Inl ValueError
            | d # ds \<Rightarrow>
                (case (hexval c, hexval d) of
                   (Some hi, Some lo) \<Rightarrow>
                     (case fromhex ds of
                        Inl e \<Rightarrow> Inl e
                      | Inr bs \<Rightarrow> Inr (word_of_nat (16 * hi + lo) # bs))
                 | _ \<Rightarrow> Inl ValueError)))"

text \<open>
  \<open>struct.unpack(">i", b)[0]\<close>: exactly four bytes, read big-endian as a signed 32-bit
  integer; any other length raises \<open>struct.error\<close>.
\<close>

definition unpack_be_i32 :: "8 word list \<Rightarrow> error + int" where
  "unpack_be_i32 bs =
     (case bs of
        [b0, b1, b2, b3] \<Rightarrow>
          Inr (sint (word_of_nat
                 (((unat b0 * 256 + unat b1) * 256 + unat b2) * 256 + unat b3) :: 32 word))
      | _ \<Rightarrow> Inl StructError)"

text \<open>
  \<open>"%02x" % n\<close>: lower-case hex, padded with zeros to two characters; the sign of a
  negative number counts towards the width.
\<close>

definition fmt02x :: "int \<Rightarrow> string" where
  "fmt02x n =
     (if n < 0 then CHR ''-'' # hexdigits (nat (- n))
      else (let d = hexdigits (nat n) in replicate (2 - length d) CHR ''0'' @ d))"

section \<open>Shared.py\<close>

definition intToHex :: "int \<Rightarrow> string" where
  "intToHex n = hex (if n < 0 then n AND 0xFFFFFFFF else n)"

definition hexToInt :: "string \<Rightarrow> error + int" where
  "hexToInt h = (case fromhex h of Inl e \<Rightarrow> Inl e | Inr bs \<Rightarrow> unpack_be_i32 bs)"

definition stringToAsciiInt :: "string \<Rightarrow> int" where
  "stringToAsciiInt s = sum_list (map (\<lambda>c. int (of_char c)) s)"

section \<open>JopImage.py\<close>

datatype JopCanvasType = SMALL | LARGE | LONG | TALL

fun canvasValue :: "JopCanvasType \<Rightarrow> int" where
  "canvasValue SMALL = 0"
| "canvasValue LARGE = 1"
| "canvasValue LONG = 2"
| "canvasValue TALL = 3"

text \<open>\<open>JopCanvasType(v)\<close>: the member with value \<open>v\<close>, or \<open>ValueError\<close>.\<close>

definition canvasOfValue :: "int \<Rightarrow> error + JopCanvasType" where
  "canvasOfValue v =
     (if v = 0 then Inr SMALL else if v = 1 then Inr LARGE
      else if v = 2 then Inr LONG else if v = 3 then Inr TALL else Inl ValueError)"

fun getSize :: "JopCanvasType \<Rightarrow> int \<times> int" where
  "getSize SMALL = (16, 16)"
| "getSize LARGE = (32, 32)"
| "getSize LONG = (32, 16)"
| "getSize TALL = (16, 32)"

definition ROOT_UUID :: string where
  "ROOT_UUID = ''d1ebe29f-f4e9-4572-83cd-8b2cdbfc2420''"

definition CANVAS_GEN :: int where "CANVAS_GEN = 1"
definition CANVAS_VER :: int where "CANVAS_VER = 2"

record JopImage =
  canvasType :: JopCanvasType
  author :: string
  title :: string
  pixels :: "string list"
  name :: string

text \<open>
  \<open>JopImage.__init__\<close>. The constructor reads the clock only when no name is given;
  \<open>clock\<close> is the value \<open>int(time())\<close> would return.
\<close>

definition JopImage_init ::
  "int \<Rightarrow> JopCanvasType \<Rightarrow> string \<Rightarrow> string \<Rightarrow> string list \<Rightarrow> string option \<Rightarrow> JopImage" where
  "JopImage_init clock ct a t px nm =
     \<lparr> canvasType = ct, author = a, title = t, pixels = px,
       name = (case nm of None \<Rightarrow> ROOT_UUID @ ''_'' @ str_int clock | Some n \<Rightarrow> n) \<rparr>"

text \<open>
  The root compound of a \<open>.paint\<close> file, with the tag types of the schema that
  \<open>saveJopImage\<close> writes: \<open>Int\<close> is a signed 32-bit word, \<open>Byte\<close> a signed 8-bit word,
  \<open>IntArray\<close> a list of 32-bit words. A field that is \<open>None\<close> is absent from the file.
  Writing the compound to bytes and reading it back is the NBT library's work, not the
  converter's; the file's content is the compound.
\<close>

record paint =
  nbt_generation :: "32 word option"
  nbt_ct :: "8 word option"
  nbt_pixels :: "32 word list option"
  nbt_v :: "32 word option"
  nbt_author :: "string option"
  nbt_name :: "string option"
  nbt_title :: "string option"

definition saveJopImage :: "JopImage \<Rightarrow> error + paint" where
  "saveJopImage self =
     (case mapE (\<lambda>pixel. hexToInt (''ff'' @ pixel)) (pixels self) of
        Inl e \<Rightarrow> Inl e
      | Inr ints \<Rightarrow>
          Inr \<lparr> nbt_generation = Some (word_of_int CANVAS_GEN),
                nbt_ct = Some (word_of_int (canvasValue (canvasType self))),
                nbt_pixels = Some (map word_of_int ints),
                nbt_v = Some (word_of_int CANVAS_VER),
                nbt_author = Some (author self),
                nbt_name = Some (name self),
                nbt_title = Some (title self) \<rparr>)"

definition fromJopFile :: "int \<Rightarrow> paint \<Rightarrow> error + JopImage" where
  "fromJopFile clock nbtData =
     (case nbt_pixels nbtData of
        None \<Rightarrow> Inl KeyError
      | Some ps \<Rightarrow>
          (let px = map (\<lambda>pixel. drop 4 (intToHex (sint pixel))) ps in
           case nbt_ct nbtData of
             None \<Rightarrow> Inl KeyError
           | Some c \<Rightarrow>
               (case canvasOfValue (sint c) of
                  Inl e \<Rightarrow> Inl e
                | Inr ct \<Rightarrow>
                    (case nbt_author nbtData of
                       None \<Rightarrow> Inl KeyError
                     | Some a \<Rightarrow>
                         (case nbt_title nbtData of
                            None \<Rightarrow> Inl KeyError
                          | Some t \<Rightarrow>
                              (case nbt_name nbtData of
                                 None \<Rightarrow> Inl KeyError
                               | Some n \<Rightarrow> Inr (JopImage_init clock ct a t px (Some n))))))))"

text \<open>The colour string \<open>fromImage\<close> records for an RGB triple: \<open>"%02x%02x%02x" % c\<close>.\<close>

definition colorHex :: "int \<times> int \<times> int \<Rightarrow> string" where
  "colorHex c = (case c of (r, g, b) \<Rightarrow> fmt02x r @ fmt02x g @ fmt02x b)"

text \<open>
  The pixel strings the claims speak of: six hex digits, and six lower-case hex digits.
\<close>

definition hexDigit6 :: "string \<Rightarrow> bool" where
  "hexDigit6 p = (length p = 6 \<and> list_all (\<lambda>c. hexval c \<noteq> None) p)"

definition lowerHex6 :: "string \<Rightarrow> bool" where
  "lowerHex6 p = (length p = 6 \<and> list_all (\<lambda>c. c \<in> set ''0123456789abcdef'') p)"

section \<open>Hexadecimal digits\<close>

lemma hexdigits_small: "d < 16 \<Longrightarrow> hexdigits d = [hexchar d]"
  by (simp add: hexdigits.simps)

lemma hexdigits_step:
  "0 < n \<Longrightarrow> d < 16 \<Longrightarrow> hexdigits (16 * n + d) = hexdigits n @ [hexchar d]"
  by (subst hexdigits.simps) simp

lemma hexval_Some: "hexval c = Some d \<Longrightarrow> d < 16 \<and> \<not> isspace c"
  by (auto simp: hexval_def isspace_def split: if_splits)

lemma hexval_lower:
  "c \<in> set ''0123456789abcdef'' \<Longrightarrow> \<exists>d. hexval c = Some d \<and> hexchar d = c"
  by (auto simp: hexval_def hexchar_def)

lemma fromhex_pair:
  assumes "hexval c = Some hi" "hexval d = Some lo"
  shows "fromhex (c # d # ds) =
    (case fromhex ds of Inl e \<Rightarrow> Inl e | Inr bs \<Rightarrow> Inr (word_of_nat (16 * hi + lo) # bs))"
  using assms hexval_Some [of c hi] by simp

lemma unat_hex_byte:
  "hi < 16 \<Longrightarrow> lo < 16 \<Longrightarrow> unat (word_of_nat (16 * hi + lo) :: 8 word) = 16 * hi + lo"
  by (subst unat_of_nat) simp

text \<open>The integer \<open>hexToInt\<close> returns for \<open>ff\<close> followed by six hex digits.\<close>

definition packed :: "nat \<Rightarrow> nat \<Rightarrow> nat \<Rightarrow> nat \<Rightarrow> nat \<Rightarrow> nat \<Rightarrow> nat" where
  "packed d1 d2 d3 d4 d5 d6 =
     16 * (16 * (16 * (16 * (16 * (16 * (16 * 15 + 15) + d1) + d2) + d3) + d4) + d5) + d6"

lemma hexToInt_ff:
  assumes "hexval c1 = Some d1" "hexval c2 = Some d2" "hexval c3 = Some d3"
    "hexval c4 = Some d4" "hexval c5 = Some d5" "hexval c6 = Some d6"
  shows "hexToInt (''ff'' @ [c1, c2, c3, c4, c5, c6]) =
    Inr (sint (word_of_nat (packed d1 d2 d3 d4 d5 d6) :: 32 word))"
proof -
  have b: "d1 < 16" "d2 < 16" "d3 < 16" "d4 < 16" "d5 < 16" "d6 < 16"
    using assms hexval_Some by blast+
  have f: "hexval CHR ''f'' = Some 15"
    by (simp add: hexval_def)
  have "fromhex (''ff'' @ [c1, c2, c3, c4, c5, c6]) =
    Inr [word_of_nat (16 * 15 + 15), word_of_nat (16 * d1 + d2),
         word_of_nat (16 * d3 + d4), word_of_nat (16 * d5 + d6)]"
    using assms f by (simp add: fromhex_pair del: fromhex.simps(2))
  moreover have "((unat (word_of_nat (16 * 15 + 15) :: 8 word) * 256
      + unat (word_of_nat (16 * d1 + d2) :: 8 word)) * 256
      + unat (word_of_nat (16 * d3 + d4) :: 8 word)) * 256
      + unat (word_of_nat (16 * d5 + d6) :: 8 word) = packed d1 d2 d3 d4 d5 d6"
    using b by (simp only: unat_hex_byte packed_def) simp
  ultimately show ?thesis
    by (simp only: hexToInt_def unpack_be_i32_def sum.case list.case)
qed

lemma packed_bounds:
  assumes "d1 < 16" "d2 < 16" "d3 < 16" "d4 < 16" "d5 < 16" "d6 < 16"
  shows "2 ^ 31 \<le> packed d1 d2 d3 d4 d5 d6" "packed d1 d2 d3 d4 d5 d6 < 2 ^ 32"
  using assms by (simp_all add: packed_def)

lemma hexdigits_packed:
  assumes "d1 < 16" "d2 < 16" "d3 < 16" "d4 < 16" "d5 < 16" "d6 < 16"
  shows "hexdigits (packed d1 d2 d3 d4 d5 d6) =
    ''ff'' @ [hexchar d1, hexchar d2, hexchar d3, hexchar d4, hexchar d5, hexchar d6]"
proof -
  have p0: "0 < 16 * 15 + (15::nat)"
    by simp
  have h0: "hexdigits (16 * 15 + 15) = ''ff''"
    by (simp add: hexdigits.simps hexchar_def)
  have h1: "hexdigits (16 * (16 * 15 + 15) + d1) = ''ff'' @ [hexchar d1]"
    by (simp only: hexdigits_step [OF p0 assms(1)] h0)
  have p1: "0 < 16 * (16 * 15 + 15) + d1"
    by simp
  have h2: "hexdigits (16 * (16 * (16 * 15 + 15) + d1) + d2) = ''ff'' @ [hexchar d1, hexchar d2]"
    by (simp only: hexdigits_step [OF p1 assms(2)] h1) simp
  have p2: "0 < 16 * (16 * (16 * 15 + 15) + d1) + d2"
    by simp
  have h3: "hexdigits (16 * (16 * (16 * (16 * 15 + 15) + d1) + d2) + d3) =
      ''ff'' @ [hexchar d1, hexchar d2, hexchar d3]"
    by (simp only: hexdigits_step [OF p2 assms(3)] h2) simp
  have p3: "0 < 16 * (16 * (16 * (16 * 15 + 15) + d1) + d2) + d3"
    by simp
  have h4: "hexdigits (16 * (16 * (16 * (16 * (16 * 15 + 15) + d1) + d2) + d3) + d4) =
      ''ff'' @ [hexchar d1, hexchar d2, hexchar d3, hexchar d4]"
    by (simp only: hexdigits_step [OF p3 assms(4)] h3) simp
  have p4: "0 < 16 * (16 * (16 * (16 * (16 * 15 + 15) + d1) + d2) + d3) + d4"
    by simp
  have h5: "hexdigits
      (16 * (16 * (16 * (16 * (16 * (16 * 15 + 15) + d1) + d2) + d3) + d4) + d5) =
      ''ff'' @ [hexchar d1, hexchar d2, hexchar d3, hexchar d4, hexchar d5]"
    by (simp only: hexdigits_step [OF p4 assms(5)] h4) simp
  have p5: "0 < 16 * (16 * (16 * (16 * (16 * (16 * 15 + 15) + d1) + d2) + d3) + d4) + d5"
    by simp
  show ?thesis
    unfolding packed_def by (simp only: hexdigits_step [OF p5 assms(6)] h5) simp
qed

section \<open>Signed and unsigned readings of a 32-bit word\<close>

lemma take_bit_sint32: "take_bit 32 (sint (w :: 32 word)) = uint w"
proof -
  have "uint w < 2 ^ 32"
    using uint_lt2p [of w] by simp
  then show ?thesis
    by (simp add: sint_uint take_bit_signed_take_bit take_bit_int_eq_self)
qed

lemma intToHex_sint: "intToHex (sint (w :: 32 word)) = ''0x'' @ hexdigits (unat w)"
proof -
  have m: "(0xFFFFFFFF :: int) = mask 32"
    by (simp add: mask_eq_exp_minus_1)
  have "(if sint w < 0 then sint w AND 0xFFFFFFFF else sint w) = uint w"
  proof (cases "sint w < 0")
    case True
    then show ?thesis
      by (simp only: m if_True flip: take_bit_eq_mask) (rule take_bit_sint32)
  next
    case False
    have "sint w < 2 ^ 32"
      using sint_lt [of w] by simp
    with False have "take_bit 32 (sint w) = sint w"
      by (simp add: take_bit_int_eq_self)
    with False show ?thesis
      by (simp add: take_bit_sint32)
  qed
  then show ?thesis
    by (simp add: intToHex_def hex_def)
qed

lemma sint_negative:
  assumes "2 ^ 31 \<le> n" "n < 2 ^ 32"
  shows "sint (word_of_nat n :: 32 word) < 0"
proof -
  have u: "uint (word_of_nat n :: 32 word) = int n"
    unfolding uint_nat by (subst unat_of_nat) (use assms in simp)
  have e: "sint (word_of_nat n :: 32 word) = signed_take_bit 31 (int n)"
    using u by (simp add: sint_uint)
  have le: "signed_take_bit 31 (int n) \<le> int n - 4294967296"
    using signed_take_bit_int_less_eq [of 31 "int n"] assms by simp
  have "int n < 4294967296"
    using assms by simp
  with le show ?thesis
    unfolding e by linarith
qed

section \<open>Signed packing\<close>

lemma colorHex_red: "colorHex (255, 0, 0) = ''ff0000''"
  by (simp add: colorHex_def fmt02x_def hexdigits.simps hexchar_def)

lemma hexToInt_red: "hexToInt ''ffff0000'' = Inr (- 65536)"
  by (simp add: hexToInt_def unpack_be_i32_def hexval_def isspace_def)

lemma canvasOfValue_canvasValue:
  "canvasOfValue (sint (word_of_int (canvasValue c) :: 8 word)) = Inr c"
  by (cases c) (simp_all add: canvasOfValue_def)

lemma decode_red: "drop 4 (intToHex (- 65536)) = ''ff0000''"
  by (simp add: intToHex_def hex_def hexdigits.simps hexchar_def)

text \<open>
  C2. Encoding the colour \<open>(255, 0, 0)\<close>, with the alpha byte \<open>ff\<close> that
  \<open>saveJopImage\<close> puts in front, writes the 32-bit pattern \<open>0xFFFF0000\<close>, which read
  as a signed integer is \<open>-65536\<close>; decoding the pixel integer \<open>-65536\<close> gives back
  the colour string of \<open>(255, 0, 0)\<close>.
\<close>

theorem signed_packing_red:
  "map_sum id nbt_pixels
     (saveJopImage \<lparr>canvasType = c, author = a, title = t,
        pixels = [colorHex (255, 0, 0)], name = n\<rparr>) = Inr (Some [0xFFFF0000])
   \<and> sint (0xFFFF0000 :: 32 word) = - 65536
   \<and> map_sum id pixels
     (fromJopFile clock \<lparr>nbt_generation = g, nbt_ct = Some (word_of_int (canvasValue c)),
        nbt_pixels = Some [word_of_int (- 65536)], nbt_v = v, nbt_author = Some a,
        nbt_name = Some n, nbt_title = Some t\<rparr>) = Inr [colorHex (255, 0, 0)]"
  by (simp add: saveJopImage_def fromJopFile_def colorHex_red hexToInt_red
      canvasOfValue_canvasValue decode_red JopImage_init_def)

theorem signed_packing_red_witness:
  "sint (0xFFFF0000 :: 32 word) = - 65536"
  by (rule signed_packing_red [THEN conjunct2, THEN conjunct1])

section \<open>Encoding and decoding a canvas\<close>

lemma mapE_Inr_map:
  "(\<And>x. x \<in> set xs \<Longrightarrow> f x = Inr (g x)) \<Longrightarrow> mapE f xs = Inr (map g xs)"
  by (induction xs) simp_all

lemma six_chars:
  assumes "length p = 6"
  shows "\<exists>c1 c2 c3 c4 c5 c6. p = [c1, c2, c3, c4, c5, c6]"
proof -
  have "length p = Suc (Suc (Suc (Suc (Suc (Suc 0)))))"
    using assms by simp
  then show ?thesis
    by (simp only: length_Suc_conv length_0_conv) blast
qed

lemma hexval_lower_eq:
  assumes "c \<in> set ''0123456789abcdef''" "hexval c = Some e"
  shows "hexchar e = c"
  using hexval_lower [OF assms(1)] assms(2) by auto

lemma hexDigit6_encode:
  assumes "hexDigit6 p"
  shows "\<exists>d1 d2 d3 d4 d5 d6.
    d1 < 16 \<and> d2 < 16 \<and> d3 < 16 \<and> d4 < 16 \<and> d5 < 16 \<and> d6 < 16
    \<and> hexToInt (''ff'' @ p) = Inr (sint (word_of_nat (packed d1 d2 d3 d4 d5 d6) :: 32 word))
    \<and> (lowerHex6 p \<longrightarrow>
         p = [hexchar d1, hexchar d2, hexchar d3, hexchar d4, hexchar d5, hexchar d6])"
proof -
  from assms have "length p = 6"
    by (simp add: hexDigit6_def)
  then obtain c1 c2 c3 c4 c5 c6 where p: "p = [c1, c2, c3, c4, c5, c6]"
    using six_chars by blast
  from assms have "hexval c1 \<noteq> None" "hexval c2 \<noteq> None" "hexval c3 \<noteq> None"
    "hexval c4 \<noteq> None" "hexval c5 \<noteq> None" "hexval c6 \<noteq> None"
    by (simp_all add: hexDigit6_def p)
  then obtain d1 d2 d3 d4 d5 d6 where
    d: "hexval c1 = Some d1" "hexval c2 = Some d2" "hexval c3 = Some d3"
      "hexval c4 = Some d4" "hexval c5 = Some d5" "hexval c6 = Some d6"
    by blast
  have b: "d1 < 16" "d2 < 16" "d3 < 16" "d4 < 16" "d5 < 16" "d6 < 16"
    using d hexval_Some by blast+
  have e: "hexToInt (''ff'' @ p) = Inr (sint (word_of_nat (packed d1 d2 d3 d4 d5 d6) :: 32 word))"
    unfolding p by (rule hexToInt_ff [OF d])
  have l: "p = [hexchar d1, hexchar d2, hexchar d3, hexchar d4, hexchar d5, hexchar d6]"
    if "lowerHex6 p"
  proof -
    from that have m: "c1 \<in> set ''0123456789abcdef''" "c2 \<in> set ''0123456789abcdef''"
      "c3 \<in> set ''0123456789abcdef''" "c4 \<in> set ''0123456789abcdef''"
      "c5 \<in> set ''0123456789abcdef''" "c6 \<in> set ''0123456789abcdef''"
      unfolding lowerHex6_def p by (simp_all del: set_simps)
    show ?thesis
      unfolding p
      by (simp only: hexval_lower_eq [OF m(1) d(1)] hexval_lower_eq [OF m(2) d(2)]
          hexval_lower_eq [OF m(3) d(3)] hexval_lower_eq [OF m(4) d(4)]
          hexval_lower_eq [OF m(5) d(5)] hexval_lower_eq [OF m(6) d(6)])
  qed
  from b e l show ?thesis
    by blast
qed

lemma hexDigit6_negative:
  assumes "hexDigit6 p"
  shows "hexToInt (''ff'' @ p) = Inr (projr (hexToInt (''ff'' @ p)))
    \<and> projr (hexToInt (''ff'' @ p)) < 0
    \<and> sint (word_of_int (projr (hexToInt (''ff'' @ p))) :: 32 word) < 0"
proof -
  from hexDigit6_encode [OF assms] obtain d1 d2 d3 d4 d5 d6 where
    b: "d1 < 16" "d2 < 16" "d3 < 16" "d4 < 16" "d5 < 16" "d6 < 16" and
    e: "hexToInt (''ff'' @ p) = Inr (sint (word_of_nat (packed d1 d2 d3 d4 d5 d6) :: 32 word))"
    by blast
  have "sint (word_of_nat (packed d1 d2 d3 d4 d5 d6) :: 32 word) < 0"
    by (rule sint_negative) (rule packed_bounds [OF b])+
  then show ?thesis
    unfolding e by simp
qed

lemma lowerHex6_hexDigit6:
  assumes "lowerHex6 p"
  shows "hexDigit6 p"
proof -
  have "hexval c \<noteq> None" if "c \<in> set ''0123456789abcdef''" for c
    using hexval_lower [OF that] by auto
  with assms show ?thesis
    unfolding lowerHex6_def hexDigit6_def list_all_iff by blast
qed

lemma lowerHex6_roundtrip:
  assumes "lowerHex6 p"
  shows "drop 4 (intToHex (sint (word_of_int (projr (hexToInt (''ff'' @ p))) :: 32 word))) = p"
proof -
  from hexDigit6_encode [OF lowerHex6_hexDigit6 [OF assms]] assms
  obtain d1 d2 d3 d4 d5 d6 where
    b: "d1 < 16" "d2 < 16" "d3 < 16" "d4 < 16" "d5 < 16" "d6 < 16" and
    e: "hexToInt (''ff'' @ p) = Inr (sint (word_of_nat (packed d1 d2 d3 d4 d5 d6) :: 32 word))" and
    p: "p = [hexchar d1, hexchar d2, hexchar d3, hexchar d4, hexchar d5, hexchar d6]"
    by blast
  have u: "unat (word_of_nat (packed d1 d2 d3 d4 d5 d6) :: 32 word) = packed d1 d2 d3 d4 d5 d6"
    by (subst unat_of_nat) (use packed_bounds(2) [OF b] in simp)
  have "drop 4 (intToHex (sint (word_of_nat (packed d1 d2 d3 d4 d5 d6) :: 32 word)))
      = [hexchar d1, hexchar d2, hexchar d3, hexchar d4, hexchar d5, hexchar d6]"
    by (simp add: intToHex_sint u hexdigits_packed [OF b])
  then show ?thesis
    unfolding e using p by simp
qed

text \<open>A small canvas for the witnesses: two pixels, one with an upper-case digit.\<close>

definition demo_mixed :: JopImage where
  "demo_mixed = \<lparr>canvasType = SMALL, author = ''ann'', title = ''dusk'',
     pixels = [''00ff7F'', ''000000''], name = ''u_17''\<rparr>"

definition demo_lower :: JopImage where
  "demo_lower = \<lparr>canvasType = LONG, author = ''ann'', title = ''dusk'',
     pixels = [''00ff7f'', ''a1b2c3''], name = ''u_17''\<rparr>"

text \<open>
  C9. When every pixel of a canvas is a string of six hex digits, \<open>saveJopImage\<close>
  succeeds and every integer of the \<open>pixels\<close> array it writes is strictly negative,
  both as the Python integer \<open>hexToInt\<close> returns and as the signed reading of the
  32-bit word stored in the file.
\<close>

theorem encoded_pixels_negative:
  assumes "\<forall>p \<in> set (pixels x). hexDigit6 p"
  shows "\<exists>ints nbt.
    mapE (\<lambda>pixel. hexToInt (''ff'' @ pixel)) (pixels x) = Inr ints
    \<and> (\<forall>n \<in> set ints. n < 0)
    \<and> saveJopImage x = Inr nbt
    \<and> nbt_pixels nbt = Some (map word_of_int ints)
    \<and> (\<forall>w \<in> set (map word_of_int ints :: 32 word list). sint w < 0)"
proof -
  let ?g = "\<lambda>pixel. projr (hexToInt (''ff'' @ pixel))"
  have m: "mapE (\<lambda>pixel. hexToInt (''ff'' @ pixel)) (pixels x) = Inr (map ?g (pixels x))"
    by (rule mapE_Inr_map) (use assms hexDigit6_negative in blast)
  have n: "\<forall>p \<in> set (pixels x). ?g p < 0 \<and> sint (word_of_int (?g p) :: 32 word) < 0"
    using assms hexDigit6_negative by blast
  show ?thesis
    unfolding saveJopImage_def m using n by (simp del: append.simps)
qed

theorem encoded_pixels_negative_witness:
  "\<exists>ints nbt.
    mapE (\<lambda>pixel. hexToInt (''ff'' @ pixel)) (pixels demo_mixed) = Inr ints
    \<and> (\<forall>n \<in> set ints. n < 0)
    \<and> saveJopImage demo_mixed = Inr nbt
    \<and> nbt_pixels nbt = Some (map word_of_int ints)
    \<and> (\<forall>w \<in> set (map word_of_int ints :: 32 word list). sint w < 0)"
proof -
  have "\<forall>p \<in> set (pixels demo_mixed). hexDigit6 p"
    by (simp add: demo_mixed_def hexDigit6_def hexval_def)
  then show ?thesis
    by (rule encoded_pixels_negative)
qed

text \<open>
  C1. For a canvas whose pixels are strings of six lower-case hex digits (however many
  pixels it has), \<open>saveJopImage\<close> succeeds and \<open>fromJopFile\<close> on the written compound
  returns the same canvas: pixels, author, title, name and canvas type. The compound
  holds \<open>generation = 1\<close> and \<open>v = 2\<close>, and the decoder does not read them: with any
  other value, or with the two fields absent, the result is the same.
\<close>

theorem save_load_roundtrip:
  assumes "\<forall>p \<in> set (pixels x). lowerHex6 p"
  shows "\<exists>nbt. saveJopImage x = Inr nbt
    \<and> fromJopFile clock nbt = Inr x
    \<and> nbt_generation nbt = Some 1 \<and> nbt_v nbt = Some 2
    \<and> (\<forall>g v. fromJopFile clock (nbt\<lparr>nbt_generation := g, nbt_v := v\<rparr>) = Inr x)"
proof -
  let ?g = "\<lambda>pixel. projr (hexToInt (''ff'' @ pixel))"
  have m: "mapE (\<lambda>pixel. hexToInt (''ff'' @ pixel)) (pixels x) = Inr (map ?g (pixels x))"
    by (rule mapE_Inr_map) (use assms lowerHex6_hexDigit6 hexDigit6_negative in blast)
  have r: "map (\<lambda>p. drop 4 (intToHex (sint (word_of_int (?g p) :: 32 word)))) (pixels x)
      = pixels x"
    by (rule map_idI) (use assms lowerHex6_roundtrip in blast)
  show ?thesis
    unfolding saveJopImage_def m
    by (simp add: fromJopFile_def canvasOfValue_canvasValue JopImage_init_def
        CANVAS_GEN_def CANVAS_VER_def comp_def r del: append.simps)
qed

theorem save_load_roundtrip_witness:
  "\<exists>nbt. saveJopImage demo_lower = Inr nbt
    \<and> fromJopFile 1700000000 nbt = Inr demo_lower
    \<and> nbt_generation nbt = Some 1 \<and> nbt_v nbt = Some 2
    \<and> (\<forall>g v. fromJopFile 1700000000 (nbt\<lparr>nbt_generation := g, nbt_v := v\<rparr>)
          = Inr demo_lower)"
proof -
  have "\<forall>p \<in> set (pixels demo_lower). lowerHex6 p"
    by (simp add: demo_lower_def lowerHex6_def)
  then show ?thesis
    by (rule save_load_roundtrip)
qed

section \<open>The grid indexer\<close>

text \<open>
  The indexer divides through floating point: \<open>round(tileSize / 2)\<close> and the length
  \<open>ceil((stop - start) / step)\<close> of \<open>np.arange\<close> are computed on 64-bit floats. For
  integers of magnitude below \<open>2 ^ 53\<close> the float quotient determines the same integer as
  the exact quotient, and the definitions below give the code's result. Beyond that bound
  they do not model the code, so every theorem about them carries the bound.
\<close>

definition float_exact :: "int \<Rightarrow> bool" where
  "float_exact n = (\<bar>n\<bar> < 2 ^ 53)"

text \<open>
  \<open>round(n / 2)\<close> for an integer \<open>n\<close> with \<open>float_exact n\<close>: Python rounds a tie to
  the even neighbour.
\<close>

definition round_half :: "int \<Rightarrow> int" where
  "round_half n = (let k = n div 2 in if even n then k else if even k then k else k + 1)"

text \<open>
  \<open>np.arange(start, stop, step)\<close> on integers with \<open>float_exact\<close> bounds:
  \<open>ceil((stop - start) / step)\<close> values \<open>start + i * step\<close>, none when that count is
  not positive; a zero step raises \<open>ZeroDivisionError\<close>.
\<close>

definition arange :: "int \<Rightarrow> int \<Rightarrow> int \<Rightarrow> error + int list" where
  "arange start stop step =
     (if step = 0 then Inl ZeroDivisionError
      else Inr (map (\<lambda>i. start + int i * step) [0 ..< nat (- ((start - stop) div step))]))"

text \<open>
  \<open>tileGridIndices\<close>: \<open>np.meshgrid\<close> and \<open>np.stack\<close> give one row per value of \<open>y\<close>,
  each row holding the pair \<open>(x, y)\<close> for every value of \<open>x\<close>.
\<close>

definition tileGridIndices ::
  "int \<times> int \<Rightarrow> int \<times> int \<Rightarrow> bool \<Rightarrow> error + (int \<times> int) list list" where
  "tileGridIndices gridSize tileSize startAtZero =
     (let startPoint =
            (if \<not> startAtZero then (round_half (fst tileSize), round_half (snd tileSize))
             else (0, 0))
      in case arange (fst startPoint) (fst gridSize) (fst tileSize) of
           Inl e \<Rightarrow> Inl e
         | Inr x \<Rightarrow>
             (case arange (snd startPoint) (snd gridSize) (snd tileSize) of
                Inl e \<Rightarrow> Inl e
              | Inr y \<Rightarrow> Inr (map (\<lambda>yy. map (\<lambda>xx. (xx, yy)) x) y)))"

text \<open>The number of origins on one axis in zero-start mode: \<open>ceil(extent / tile)\<close>.\<close>

definition origin_count :: "int \<Rightarrow> int \<Rightarrow> nat" where
  "origin_count extent tile = nat (- ((- extent) div tile))"

lemma arange_zero_start:
  assumes "0 < step"
  shows "arange 0 stop step = Inr (map (\<lambda>i. int i * step) [0 ..< origin_count stop step])"
  using assms by (simp add: arange_def origin_count_def)

lemma origin_inside:
  assumes "0 < step" "i < origin_count stop step"
  shows "0 \<le> int i * step \<and> int i * step < stop
    \<and> (step dvd stop \<longrightarrow> int i * step + step \<le> stop)"
proof -
  let ?q = "(- stop) div step" and ?r = "(- stop) mod step"
  have r: "0 \<le> ?r" "?r < step"
    using assms(1) by simp_all
  from assms(2) have "int i \<le> - ?q - 1"
    unfolding origin_count_def by linarith
  then have "int i * step \<le> (- ?q - 1) * step"
    using assms(1) by (intro mult_right_mono) simp_all
  moreover have "(- ?q - 1) * step = - (step * ?q) - step"
    by (simp add: algebra_simps)
  ultimately have le: "int i * step \<le> stop + ?r - step"
    using mult_div_mod_eq [of step "- stop"] by linarith
  have z: "?r = 0" if "step dvd stop"
    using that by (simp add: dvd_eq_mod_eq_0 [symmetric])
  have "int i * step < stop"
    using le r(2) by linarith
  moreover have "int i * step + step \<le> stop" if "step dvd stop"
    using le z [OF that] by linarith
  moreover have "0 \<le> int i * step"
    using assms(1) by simp
  ultimately show ?thesis
    by blast
qed

lemma last_origin_overhangs:
  assumes "0 < step" "0 < stop" "\<not> step dvd stop"
  shows "0 < origin_count stop step
    \<and> stop < int (origin_count stop step - 1) * step + step"
proof -
  let ?q = "(- stop) div step" and ?r = "(- stop) mod step"
  have "?q < 0"
    using assms(1,2) by (simp add: div_neg_pos_less0)
  then have n: "0 < origin_count stop step" "int (origin_count stop step) = - ?q"
    by (simp_all add: origin_count_def)
  have "?r \<noteq> 0"
    using assms(3) by (simp add: dvd_eq_mod_eq_0 [symmetric])
  moreover have "0 \<le> ?r"
    using assms(1) by simp
  ultimately have r: "0 < ?r"
    by linarith
  from n(1) have "int (origin_count stop step - 1) = - ?q - 1"
    using n(2) by linarith
  then have "int (origin_count stop step - 1) * step + step = (- ?q - 1) * step + step"
    by simp
  also have "\<dots> = - (step * ?q)"
    by (simp add: algebra_simps)
  finally have "int (origin_count stop step - 1) * step + step = stop + ?r"
    using mult_div_mod_eq [of step "- stop"] by linarith
  with r n(1) show ?thesis
    by linarith
qed



text \<open>
  C4, as the code has it. For a positive tile size, with extent and tile of magnitude
  below \<open>2 ^ 53\<close>, the indexer in zero-start mode returns exactly the origins
  \<open>(i * tileW, j * tileH)\<close> for \<open>i < ceil(totalW / tileW)\<close> and
  \<open>j < ceil(totalH / tileH)\<close>, row by row. Every origin lies inside the extent:
  \<open>0 \<le> ox < totalW\<close> and \<open>0 \<le> oy < totalH\<close>. A trailing partial tile is kept: when
  \<open>tileW\<close> does not divide a positive \<open>totalW\<close>, the last origin of a row has
  \<open>ox + tileW > totalW\<close>; the bound \<open>ox + tileW \<le> totalW\<close> holds for every origin
  when \<open>tileW\<close> divides \<open>totalW\<close>. Likewise for the height.
\<close>

theorem zero_start_origins_inside:
  assumes "0 < tileW" "0 < tileH"
    and "float_exact tileW" "float_exact tileH" "float_exact totalW" "float_exact totalH"
  shows "tileGridIndices (totalW, totalH) (tileW, tileH) True =
      Inr (map (\<lambda>j. map (\<lambda>i. (int i * tileW, int j * tileH))
                        [0 ..< origin_count totalW tileW])
               [0 ..< origin_count totalH tileH])
    \<and> (\<forall>i < origin_count totalW tileW.
          0 \<le> int i * tileW \<and> int i * tileW < totalW
          \<and> (tileW dvd totalW \<longrightarrow> int i * tileW + tileW \<le> totalW))
    \<and> (\<forall>j < origin_count totalH tileH.
          0 \<le> int j * tileH \<and> int j * tileH < totalH
          \<and> (tileH dvd totalH \<longrightarrow> int j * tileH + tileH \<le> totalH))
    \<and> (0 < totalW \<and> \<not> tileW dvd totalW \<longrightarrow>
          0 < origin_count totalW tileW
          \<and> totalW < int (origin_count totalW tileW - 1) * tileW + tileW)
    \<and> (0 < totalH \<and> \<not> tileH dvd totalH \<longrightarrow>
          0 < origin_count totalH tileH
          \<and> totalH < int (origin_count totalH tileH - 1) * tileH + tileH)"
proof -
  have "tileGridIndices (totalW, totalH) (tileW, tileH) True =
      Inr (map (\<lambda>j. map (\<lambda>i. (int i * tileW, int j * tileH))
                        [0 ..< origin_count totalW tileW])
               [0 ..< origin_count totalH tileH])"
    by (simp add: tileGridIndices_def arange_zero_start [OF assms(1)]
        arange_zero_start [OF assms(2)] comp_def)
  then show ?thesis
    using origin_inside [OF assms(1)] origin_inside [OF assms(2)]
      last_origin_overhangs [OF assms(1)] last_origin_overhangs [OF assms(2)]
    by blast
qed

theorem zero_start_origins_inside_witness:
  "tileGridIndices (64, 70) (32, 32) True =
      Inr [[(0, 0), (32, 0)], [(0, 32), (32, 32)], [(0, 64), (32, 64)]]
    \<and> origin_count 64 32 = 2 \<and> origin_count 70 32 = 3
    \<and> (70::int) < int (origin_count 70 32 - 1) * 32 + 32"
proof -
  have b: "float_exact 32" "float_exact 64" "float_exact 70"
    by (simp_all add: float_exact_def)
  have n: "origin_count 64 32 = 2" "origin_count 70 32 = 3"
    by (simp_all add: origin_count_def)
  from zero_start_origins_inside [of 32 32 64 70, OF _ _ b(1) b(1) b(2) b(3)]
  show ?thesis
    by (simp add: n upt_rec)
qed

text \<open>
  The claim as the specification states it fails: an extent of 70 with tiles of 32 has the
  origin 64, and \<open>64 + 32\<close> exceeds 70.
\<close>

theorem zero_start_overhang:
  "tileGridIndices (70, 70) (32, 32) True =
     Inr [[(0, 0), (32, 0), (64, 0)], [(0, 32), (32, 32), (64, 32)],
          [(0, 64), (32, 64), (64, 64)]]
   \<and> \<not> (64 + 32 \<le> (70::int))"
  by (simp add: tileGridIndices_def arange_def upt_rec)




section \<open>Images\<close>

text \<open>
  A Pillow image in mode RGB: its size \<open>(width, height)\<close> and the colour at each
  coordinate, three 8-bit channels. Only coordinates inside the size are ever read.
\<close>

type_synonym rgb = "8 word \<times> 8 word \<times> 8 word"

record Image =
  im_size :: "int \<times> int"
  im_pixel :: "int \<Rightarrow> int \<Rightarrow> rgb"

text \<open>
  \<open>image.crop((left, upper, right, lower))\<close>: a box with \<open>right < left\<close> or
  \<open>lower < upper\<close> raises \<open>ValueError\<close>; the part of the box outside the image is
  black.
\<close>

definition crop :: "Image \<Rightarrow> int \<times> int \<times> int \<times> int \<Rightarrow> error + Image" where
  "crop img box =
     (case box of (left, upper, right, lower) \<Rightarrow>
        if right < left \<or> lower < upper then Inl ValueError
        else Inr \<lparr> im_size = (right - left, lower - upper),
                   im_pixel = (\<lambda>x y.
                     if 0 \<le> x + left \<and> x + left < fst (im_size img)
                        \<and> 0 \<le> y + upper \<and> y + upper < snd (im_size img)
                     then im_pixel img (x + left) (y + upper)
                     else (0, 0, 0)) \<rparr>)"

text \<open>
  \<open>np.reshape(np.array(image), (-1, 3))\<close>: the pixels row by row.
\<close>

definition pixel_rows :: "Image \<Rightarrow> rgb list" where
  "pixel_rows img =
     concat (map (\<lambda>y. map (\<lambda>x. im_pixel img (int x) (int y))
                          [0 ..< nat (fst (im_size img))])
                 [0 ..< nat (snd (im_size img))])"

text \<open>\<open>np.unique(rows, axis=0)\<close>: the distinct rows, sorted.\<close>

definition unique :: "rgb list \<Rightarrow> rgb list" where
  "unique cs = sort (remdups cs)"

text \<open>
  \<open>round(s / n)\<close> for the mean of one channel: \<open>n\<close> is the number of distinct colours,
  at most \<open>2 ^ 24\<close>, and \<open>s\<close> the sum of their channel values, at most \<open>255 * n\<close>.
  The sum is exact in a 64-bit float, and in that range the float quotient lies on the same
  side of every half-integer as the exact one, so the result is the integer nearest to
  \<open>s / n\<close>, a tie going to the even neighbour. The definition is used in that range only.
\<close>

definition round_ratio :: "int \<Rightarrow> int \<Rightarrow> int" where
  "round_ratio s n =
     (let q = s div n; r = s mod n
      in if 2 * r < n then q else if n < 2 * r then q + 1
         else if even q then q else q + 1)"

text \<open>
  \<open>averageColor\<close>. The mean of an empty array is \<open>nan\<close>, and \<open>round(nan)\<close> raises
  \<open>ValueError\<close>.
\<close>

definition averageColor :: "Image \<Rightarrow> error + int \<times> int \<times> int" where
  "averageColor img =
     (let colors = unique (pixel_rows img);
          n = int (length colors)
      in if colors = [] then Inl ValueError
         else Inr (round_ratio (sum_list (map (\<lambda>c. uint (fst c)) colors)) n,
                   round_ratio (sum_list (map (\<lambda>c. uint (fst (snd c))) colors)) n,
                   round_ratio (sum_list (map (\<lambda>c. uint (snd (snd c))) colors)) n))"

text \<open>
  The words of the specification: the colours present in the region, each once, and the
  arithmetic mean of one channel over them.
\<close>

definition region_colours :: "Image \<Rightarrow> rgb set" where
  "region_colours img =
     (\<lambda>(x, y). im_pixel img x y) `
       ({0 ..< fst (im_size img)} \<times> {0 ..< snd (im_size img)})"

definition channel_mean :: "(rgb \<Rightarrow> 8 word) \<Rightarrow> rgb set \<Rightarrow> real" where
  "channel_mean ch S = (\<Sum>c \<in> S. real_of_int (uint (ch c))) / real (card S)"

text \<open>The 2 by 2 region of the specification's example.\<close>

definition demo_region :: Image where
  "demo_region = \<lparr> im_size = (2, 2),
     im_pixel = (\<lambda>x y. if y = 0 then (0, 0, 0)
                       else if x = 0 then (255, 255, 255) else (10, 10, 10)) \<rparr>"

lemma round_ratio_nearest:
  assumes "0 < n"
  shows "\<bar>real_of_int (round_ratio s n) - real_of_int s / real_of_int n\<bar> \<le> 1 / 2"
proof -
  let ?q = "s div n" and ?r = "s mod n"
  have r: "0 \<le> ?r" "?r < n"
    using assms by simp_all
  have e: "real_of_int s = real_of_int n * real_of_int ?q + real_of_int ?r"
    by (metis of_int_add of_int_mult mult_div_mod_eq)
  have "real_of_int s / real_of_int n
      = (real_of_int n * real_of_int ?q) / real_of_int n + real_of_int ?r / real_of_int n"
    by (simp only: e add_divide_distrib)
  also have "(real_of_int n * real_of_int ?q) / real_of_int n = real_of_int ?q"
    using assms by simp
  finally have s:
    "real_of_int s / real_of_int n = real_of_int ?q + real_of_int ?r / real_of_int n" .
  have half: "real_of_int ?r / real_of_int n < 1 / 2" if "2 * ?r < n"
    using that assms by (simp add: field_simps, linarith?)
  have more: "1 / 2 < real_of_int ?r / real_of_int n" if "n < 2 * ?r"
    using that assms by (simp add: field_simps, linarith?)
  have tie: "real_of_int ?r / real_of_int n = 1 / 2" if "\<not> 2 * ?r < n" "\<not> n < 2 * ?r"
  proof -
    from that have "n = 2 * ?r"
      by linarith
    then have "real_of_int n = 2 * real_of_int ?r"
      by (metis of_int_mult of_int_numeral)
    with assms show ?thesis
      by (simp add: field_simps)
  qed
  define x where "x = real_of_int ?r / real_of_int n"
  have low: "0 \<le> x"
    using r assms by (simp add: x_def)
  consider (lo) "2 * ?r < n" | (hi) "n < 2 * ?r" | (eq) "\<not> 2 * ?r < n" "\<not> n < 2 * ?r"
    by linarith
  then show ?thesis
  proof cases
    case lo
    then have "round_ratio s n = ?q"
      by (simp add: round_ratio_def Let_def)
    with half [OF lo] low show ?thesis
      unfolding s x_def [symmetric] by simp
  next
    case hi
    then have "round_ratio s n = ?q + 1"
      by (simp add: round_ratio_def Let_def)
    moreover have "x < 1"
      using r assms by (simp add: x_def)
    ultimately show ?thesis
      using more [OF hi] unfolding s x_def [symmetric] by simp
  next
    case eq
    then have "round_ratio s n = ?q \<or> round_ratio s n = ?q + 1"
      by (simp add: round_ratio_def Let_def)
    then show ?thesis
      using tie [OF eq] unfolding s x_def [symmetric] by auto
  qed
qed

lemma set_pixel_rows_nat:
  "set (pixel_rows img) =
     {im_pixel img (int x) (int y) | x y.
        x < nat (fst (im_size img)) \<and> y < nat (snd (im_size img))}"
  by (auto simp: pixel_rows_def) blast

lemma set_pixel_rows: "set (pixel_rows img) = region_colours img"
proof (rule set_eqI, rule iffI)
  fix c
  assume "c \<in> set (pixel_rows img)"
  then obtain x y where xy: "x < nat (fst (im_size img))" "y < nat (snd (im_size img))"
    and c: "c = im_pixel img (int x) (int y)"
    unfolding set_pixel_rows_nat by blast
  from xy have "int x < fst (im_size img)" "int y < snd (im_size img)"
    by linarith+
  then have "(int x, int y) \<in> {0 ..< fst (im_size img)} \<times> {0 ..< snd (im_size img)}"
    by simp
  then show "c \<in> region_colours img"
    unfolding region_colours_def c by (rule image_eqI [rotated]) simp
next
  fix c
  assume "c \<in> region_colours img"
  then obtain a b where ab: "0 \<le> a" "a < fst (im_size img)" "0 \<le> b" "b < snd (im_size img)"
    and c: "c = im_pixel img a b"
    by (auto simp: region_colours_def)
  from ab have n: "nat a < nat (fst (im_size img))" "nat b < nat (snd (im_size img))"
    by simp_all
  from ab c have "c = im_pixel img (int (nat a)) (int (nat b))"
    by simp
  with n show "c \<in> set (pixel_rows img)"
    unfolding set_pixel_rows_nat by blast
qed


lemma unique_facts:
  "set (unique cs) = set cs" "distinct (unique cs)" "length (unique cs) = card (set cs)"
  by (simp_all add: unique_def length_remdups_card_conv)

lemma unique_count_bound: "length (unique cs) \<le> 2 ^ 24"
proof -
  have "card (UNIV :: rgb set) = 2 ^ 24"
    by (simp add: card_cartesian_product card_word flip: UNIV_Times_UNIV)
  moreover have "card (set cs) \<le> card (UNIV :: rgb set)"
    by (rule card_mono) simp_all
  ultimately show ?thesis
    by (simp add: unique_facts(3))
qed

lemma channel_sum_unique:
  "real_of_int (sum_list (map (\<lambda>c. uint (ch c)) (unique cs))) / real (length (unique cs))
     = channel_mean ch (set cs)"
proof -
  have "sum_list (map (\<lambda>c. uint (ch c)) (unique cs)) = (\<Sum>c \<in> set cs. uint (ch c))"
    using sum_list_distinct_conv_sum_set [OF unique_facts(2), of "\<lambda>c. uint (ch c)" cs]
    by (simp add: unique_facts(1))
  then show ?thesis
    by (simp add: channel_mean_def unique_facts(3))
qed

lemma pixel_rows_nonempty:
  assumes "0 < fst (im_size img)" "0 < snd (im_size img)"
  shows "pixel_rows img \<noteq> []"
proof -
  have "im_pixel img (int 0) (int 0) \<in> set (pixel_rows img)"
    unfolding set_pixel_rows_nat using assms by (intro CollectI exI [of _ 0]) simp
  then show ?thesis
    by auto
qed

lemma demo_region_rows:
  "pixel_rows demo_region = [(0, 0, 0), (0, 0, 0), (255, 255, 255), (10, 10, 10)]"
  by (simp add: pixel_rows_def demo_region_def upt_rec)

lemma demo_region_unique:
  "unique [(0, 0, 0), (0, 0, 0), (255, 255, 255), (10, 10, 10)]
     = [(0, 0, 0), (10, 10, 10), (255, 255, 255 :: 8 word)]"
  by (simp add: unique_def)

lemma averageColor_demo: "averageColor demo_region = Inr (88, 88, 88)"
  by (simp add: averageColor_def demo_region_rows demo_region_unique round_ratio_def)

text \<open>
  C7. For every non-empty region, \<open>averageColor\<close> succeeds and each channel of its
  result is an integer nearest to the arithmetic mean of that channel over the distinct
  colours of the region, each colour counted once however many pixels carry it. The 2 by 2
  region with the colours (0,0,0), (0,0,0), (255,255,255), (10,10,10) gives (88, 88, 88).
\<close>

theorem averageColor_mean:
  "(0 < fst (im_size img) \<and> 0 < snd (im_size img) \<longrightarrow>
      (\<exists>r g b. averageColor img = Inr (r, g, b)
         \<and> \<bar>real_of_int r - channel_mean fst (region_colours img)\<bar> \<le> 1 / 2
         \<and> \<bar>real_of_int g - channel_mean (\<lambda>c. fst (snd c)) (region_colours img)\<bar> \<le> 1 / 2
         \<and> \<bar>real_of_int b - channel_mean (\<lambda>c. snd (snd c)) (region_colours img)\<bar> \<le> 1 / 2))
   \<and> pixel_rows demo_region = [(0, 0, 0), (0, 0, 0), (255, 255, 255), (10, 10, 10)]
   \<and> averageColor demo_region = Inr (88, 88, 88)"
proof (intro conjI impI)
  assume sz: "0 < fst (im_size img) \<and> 0 < snd (im_size img)"
  let ?cs = "pixel_rows img"
  let ?n = "int (length (unique ?cs))"
  have ne: "unique ?cs \<noteq> []"
    using pixel_rows_nonempty [of img] sz unique_facts(1) [of ?cs] by (metis set_empty)
  then have pos: "0 < ?n"
    by simp
  have m: "real_of_int (sum_list (map (\<lambda>c. uint (ch c)) (unique ?cs))) / real_of_int ?n
      = channel_mean ch (region_colours img)" for ch
    using channel_sum_unique [of ch ?cs] by (simp add: set_pixel_rows)
  have "\<bar>real_of_int (round_ratio (sum_list (map (\<lambda>c. uint (ch c)) (unique ?cs))) ?n)
      - channel_mean ch (region_colours img)\<bar> \<le> 1 / 2" for ch
    using round_ratio_nearest [OF pos, of "sum_list (map (\<lambda>c. uint (ch c)) (unique ?cs))"]
    unfolding m .
  then show "\<exists>r g b. averageColor img = Inr (r, g, b)
         \<and> \<bar>real_of_int r - channel_mean fst (region_colours img)\<bar> \<le> 1 / 2
         \<and> \<bar>real_of_int g - channel_mean (\<lambda>c. fst (snd c)) (region_colours img)\<bar> \<le> 1 / 2
         \<and> \<bar>real_of_int b - channel_mean (\<lambda>c. snd (snd c)) (region_colours img)\<bar> \<le> 1 / 2"
    using ne by (simp add: averageColor_def Let_def)
next
  show "pixel_rows demo_region = [(0, 0, 0), (0, 0, 0), (255, 255, 255), (10, 10, 10)]"
    by (rule demo_region_rows)
next
  show "averageColor demo_region = Inr (88, 88, 88)"
    by (rule averageColor_demo)
qed

theorem averageColor_mean_witness:
  "\<exists>r g b. averageColor demo_region = Inr (r, g, b)
     \<and> \<bar>real_of_int r - channel_mean fst (region_colours demo_region)\<bar> \<le> 1 / 2
     \<and> \<bar>real_of_int g - channel_mean (\<lambda>c. fst (snd c)) (region_colours demo_region)\<bar> \<le> 1 / 2
     \<and> \<bar>real_of_int b - channel_mean (\<lambda>c. snd (snd c)) (region_colours demo_region)\<bar> \<le> 1 / 2"
proof -
  have "0 < fst (im_size demo_region) \<and> 0 < snd (im_size demo_region)"
    by (simp add: demo_region_def)
  with averageColor_mean [of demo_region] show ?thesis
    by blast
qed

section \<open>Building a canvas from an image\<close>

text \<open>
  \<open>JopImage.fromImage\<close>. The tile size is \<open>floor(origSize / canvasSize)\<close>, a float
  division that agrees with integer division for sizes of magnitude below \<open>2 ^ 53\<close>.
  The two nested loops visit the origins row by row; a failing crop or average stops the
  loop. \<open>clock\<close> is the value \<open>int(time())\<close> returns when no name is given.
\<close>

definition fromImage ::
  "int \<Rightarrow> Image \<Rightarrow> JopCanvasType \<Rightarrow> string \<Rightarrow> string \<Rightarrow> string option
     \<Rightarrow> error + JopImage" where
  "fromImage clock img canvas ttl auth nm =
     (let nm' = (case nm of None \<Rightarrow> ROOT_UUID @ ''_'' @ str_int clock | Some n \<Rightarrow> n);
          origSize = im_size img;
          canvasSize = getSize canvas;
          tileSize = (fst origSize div fst canvasSize, snd origSize div snd canvasSize)
      in case tileGridIndices origSize tileSize True of
           Inl e \<Rightarrow> Inl e
         | Inr gridIndices \<Rightarrow>
             (case mapE (\<lambda>gridTopLeft.
                      let gridBtmRight = (fst gridTopLeft + fst tileSize,
                                          snd gridTopLeft + snd tileSize);
                          gridBB = (fst gridTopLeft, snd gridTopLeft,
                                    fst gridBtmRight, snd gridBtmRight)
                      in case crop img gridBB of
                           Inl e \<Rightarrow> Inl e
                         | Inr gridSquare \<Rightarrow>
                             (case averageColor gridSquare of
                                Inl e \<Rightarrow> Inl e
                              | Inr avgColor \<Rightarrow> Inr (colorHex avgColor)))
                    (concat gridIndices) of
                Inl e \<Rightarrow> Inl e
              | Inr px \<Rightarrow> Inr (JopImage_init clock canvas auth ttl px (Some nm'))))"

text \<open>A 70 by 70 source image, a colour gradient.\<close>

definition demo_source :: Image where
  "demo_source = \<lparr> im_size = (70, 70),
     im_pixel = (\<lambda>x y. (word_of_int x, word_of_int y, 0)) \<rparr>"

lemma averageColor_succeeds:
  assumes "0 < fst (im_size img)" "0 < snd (im_size img)"
  shows "\<exists>c. averageColor img = Inr c"
proof -
  have "unique (pixel_rows img) \<noteq> []"
    using pixel_rows_nonempty [OF assms] unique_facts(1) [of "pixel_rows img"]
    by (metis set_empty)
  then show ?thesis
    by (simp add: averageColor_def Let_def)
qed

lemma tile_colour_succeeds:
  assumes "0 < tw" "0 < th"
  shows "\<exists>p. (case crop img (ox, oy, ox + tw, oy + th) of
                 Inl e \<Rightarrow> Inl e
               | Inr gridSquare \<Rightarrow>
                   (case averageColor gridSquare of
                      Inl e \<Rightarrow> Inl e
                    | Inr avgColor \<Rightarrow> Inr (colorHex avgColor))) = Inr p"
proof -
  obtain sq where sq: "crop img (ox, oy, ox + tw, oy + th) = Inr sq" "im_size sq = (tw, th)"
    using assms by (simp add: crop_def)
  from averageColor_succeeds [of sq] assms sq(2) obtain c where "averageColor sq = Inr c"
    by auto
  with sq(1) show ?thesis
    by simp
qed

lemma mapE_total:
  assumes "\<And>x. x \<in> set xs \<Longrightarrow> \<exists>y. f x = Inr y"
  shows "\<exists>ys. mapE f xs = Inr ys \<and> length ys = length xs"
proof -
  have "f x = Inr (projr (f x))" if "x \<in> set xs" for x
    using assms [OF that] by auto
  then have "mapE f xs = Inr (map (\<lambda>x. projr (f x)) xs)"
    by (rule mapE_Inr_map)
  then show ?thesis
    by simp
qed

lemma length_grid:
  "length (concat (map (\<lambda>j. map (f j) [0 ..< nx]) [0 ..< ny])) = nx * ny"
  by (simp add: length_concat comp_def sum_list_triv)

lemma fromImage_pixel_count:
  assumes "0 < fst (im_size img) div fst (getSize canvas)"
    and "0 < snd (im_size img) div snd (getSize canvas)"
  shows "\<exists>j. fromImage clock img canvas ttl auth nm = Inr j
    \<and> canvasType j = canvas
    \<and> length (pixels j) =
        origin_count (fst (im_size img)) (fst (im_size img) div fst (getSize canvas))
        * origin_count (snd (im_size img)) (snd (im_size img) div snd (getSize canvas))"
proof -
  let ?w = "fst (im_size img)" and ?h = "snd (im_size img)"
  let ?tw = "?w div fst (getSize canvas)" and ?th = "?h div snd (getSize canvas)"
  let ?grid = "map (\<lambda>j. map (\<lambda>i. (int i * ?tw, int j * ?th)) [0 ..< origin_count ?w ?tw])
                   [0 ..< origin_count ?h ?th]"
  let ?f = "\<lambda>gridTopLeft.
      let gridBtmRight = (fst gridTopLeft + fst (?tw, ?th), snd gridTopLeft + snd (?tw, ?th));
          gridBB = (fst gridTopLeft, snd gridTopLeft, fst gridBtmRight, snd gridBtmRight)
      in case crop img gridBB of
           Inl e \<Rightarrow> Inl e
         | Inr gridSquare \<Rightarrow>
             (case averageColor gridSquare of
                Inl e \<Rightarrow> Inl e
              | Inr avgColor \<Rightarrow> Inr (colorHex avgColor))"
  have g: "tileGridIndices (im_size img) (?tw, ?th) True = Inr ?grid"
    by (simp add: tileGridIndices_def arange_zero_start [OF assms(1)]
        arange_zero_start [OF assms(2)] comp_def)
  have "\<exists>y. ?f x = Inr y" for x
    using tile_colour_succeeds [OF assms, of img "fst x" "snd x"] by (simp add: Let_def)
  then obtain px where px: "mapE ?f (concat ?grid) = Inr px"
    "length px = length (concat ?grid)"
    using mapE_total [of "concat ?grid" ?f] by blast
  have "fromImage clock img canvas ttl auth nm =
      Inr (JopImage_init clock canvas auth ttl px
             (Some (case nm of None \<Rightarrow> ROOT_UUID @ ''_'' @ str_int clock | Some n \<Rightarrow> n)))"
    unfolding fromImage_def Let_def g using px(1) by (simp add: Let_def)
  then show ?thesis
    using px(2) by (simp add: JopImage_init_def length_grid)
qed

lemma origin_count_divisible:
  assumes "0 < c" "0 < w" "c dvd w"
  shows "0 < w div c" "origin_count w (w div c) = nat c"
proof -
  from assms(3) obtain k where k: "w = c * k"
    by (auto simp: dvd_def)
  with assms(1,2) have kpos: "0 < k"
    by (simp add: zero_less_mult_iff)
  from k assms(1) have d: "w div c = k"
    by simp
  show "0 < w div c"
    using kpos d by simp
  have "- w = (- c) * k"
    using k by simp
  then have "(- w) div k = - c"
    using kpos by (simp only: nonzero_mult_div_cancel_right)
  then show "origin_count w (w div c) = nat c"
    by (simp add: origin_count_def d)
qed

lemma getSize_positive: "0 < fst (getSize canvas)" "0 < snd (getSize canvas)"
  by (cases canvas; simp)+

text \<open>
  When the canvas width divides the source width and the canvas height the source height,
  the canvas built has exactly \<open>W * H\<close> pixels.
\<close>

lemma fromImage_exact_when_divisible:
  assumes "0 < fst (im_size img)" "0 < snd (im_size img)"
    and "fst (getSize canvas) dvd fst (im_size img)"
    and "snd (getSize canvas) dvd snd (im_size img)"
    and "float_exact (fst (im_size img))" "float_exact (snd (im_size img))"
  shows "\<exists>j. fromImage clock img canvas ttl auth nm = Inr j
    \<and> canvasType j = canvas
    \<and> int (length (pixels j)) = fst (getSize canvas) * snd (getSize canvas)"
proof -
  note w = origin_count_divisible [OF getSize_positive(1) assms(1,3)]
  note h = origin_count_divisible [OF getSize_positive(2) assms(2,4)]
  from fromImage_pixel_count [OF w(1) h(1), of clock ttl auth nm]
  show ?thesis
    using getSize_positive [of canvas] by (auto simp: w(2) h(2))
qed

text \<open>
  C3 fails on the code. A 70 by 70 source and the Large canvas give the tile size
  \<open>(2, 2)\<close>; the indexer then returns 35 origins on each axis, not 32, and the canvas
  built has \<open>35 * 35 = 1225\<close> pixels although its type says \<open>32 * 32 = 1024\<close>.
\<close>

theorem fromImage_overfull_canvas:
  "\<exists>j. fromImage clock demo_source LARGE ttl auth nm = Inr j
     \<and> canvasType j = LARGE
     \<and> length (pixels j) = 1225
     \<and> getSize (canvasType j) = (32, 32)"
proof -
  have s: "im_size demo_source = (70, 70)"
    by (simp add: demo_source_def)
  have n: "origin_count 70 2 = 35"
    by (simp add: origin_count_def)
  from fromImage_pixel_count [of demo_source LARGE clock ttl auth nm]
  show ?thesis
    by (auto simp: s n)
qed

section \<open>Decoding a pixel\<close>

lemma hexdigits_unfold:
  "16 \<le> n \<Longrightarrow> hexdigits n = hexdigits (n div 16) @ [hexchar (n mod 16)]"
  by (subst hexdigits.simps) simp

lemma fmt02x_byte:
  assumes "0 \<le> v" "v < 256"
  shows "fmt02x v = [hexchar (nat v div 16), hexchar (nat v mod 16)]"
proof (cases "nat v < 16")
  case True
  then show ?thesis
    using assms by (simp add: fmt02x_def hexdigits_small hexchar_def)
next
  case False
  then have "16 \<le> nat v" "nat v div 16 < 16"
    using assms by simp_all
  then show ?thesis
    using assms by (simp add: fmt02x_def hexdigits_unfold hexdigits_small)
qed

lemma hexdigits_eight:
  assumes "16 ^ 7 \<le> n" "n < 16 ^ 8"
  shows "hexdigits n =
    [hexchar (n div 16 ^ 7), hexchar (n div 16 ^ 6 mod 16), hexchar (n div 16 ^ 5 mod 16),
     hexchar (n div 16 ^ 4 mod 16), hexchar (n div 16 ^ 3 mod 16),
     hexchar (n div 16 ^ 2 mod 16), hexchar (n div 16 mod 16), hexchar (n mod 16)]"
proof -
  have s1: "hexdigits n = hexdigits (n div 16) @ [hexchar (n mod 16)]"
    using assms by (intro hexdigits_unfold) simp
  have s2: "hexdigits (n div 16) = hexdigits (n div 16 ^ 2) @ [hexchar (n div 16 mod 16)]"
    using assms hexdigits_unfold [of "n div 16"] by (simp add: div_mult2_eq [symmetric])
  have s3: "hexdigits (n div 16 ^ 2) =
      hexdigits (n div 16 ^ 3) @ [hexchar (n div 16 ^ 2 mod 16)]"
    using assms hexdigits_unfold [of "n div 16 ^ 2"] by (simp add: div_mult2_eq [symmetric])
  have s4: "hexdigits (n div 16 ^ 3) =
      hexdigits (n div 16 ^ 4) @ [hexchar (n div 16 ^ 3 mod 16)]"
    using assms hexdigits_unfold [of "n div 16 ^ 3"] by (simp add: div_mult2_eq [symmetric])
  have s5: "hexdigits (n div 16 ^ 4) =
      hexdigits (n div 16 ^ 5) @ [hexchar (n div 16 ^ 4 mod 16)]"
    using assms hexdigits_unfold [of "n div 16 ^ 4"] by (simp add: div_mult2_eq [symmetric])
  have s6: "hexdigits (n div 16 ^ 5) =
      hexdigits (n div 16 ^ 6) @ [hexchar (n div 16 ^ 5 mod 16)]"
    using assms hexdigits_unfold [of "n div 16 ^ 5"] by (simp add: div_mult2_eq [symmetric])
  have s7: "hexdigits (n div 16 ^ 6) =
      hexdigits (n div 16 ^ 7) @ [hexchar (n div 16 ^ 6 mod 16)]"
    using assms hexdigits_unfold [of "n div 16 ^ 6"] by (simp add: div_mult2_eq [symmetric])
  have s8: "hexdigits (n div 16 ^ 7) = [hexchar (n div 16 ^ 7)]"
    using assms by (intro hexdigits_small) simp
  show ?thesis
    by (simp only: s1 s2 s3 s4 s5 s6 s7 s8 append.simps)
qed

lemma byte_of_sint:
  assumes "k \<le> 24"
  shows "drop_bit k (sint (w :: 32 word)) AND 255 = uint w div 2 ^ k mod 256"
proof -
  have m: "(255 :: int) = mask 8"
    by (simp add: mask_eq_exp_minus_1)
  have "drop_bit k (sint w) AND 255 = take_bit 8 (drop_bit k (sint w))"
    by (simp only: m take_bit_eq_mask)
  also have "\<dots> = drop_bit k (take_bit (8 + k) (sint w))"
    by (simp only: take_bit_drop_bit)
  also have "take_bit (8 + k) (sint w) = take_bit (8 + k) (take_bit 32 (sint w))"
    using assms by (simp only: take_bit_take_bit min_def) simp
  also have "take_bit 32 (sint w) = uint w"
    by (rule take_bit_sint32)
  also have "drop_bit k (take_bit (8 + k) (uint w)) = take_bit 8 (drop_bit k (uint w))"
    by (simp only: take_bit_drop_bit)
  also have "\<dots> = uint w div 2 ^ k mod 256"
    by (simp only: take_bit_eq_mod drop_bit_eq_div) simp
  finally show ?thesis .
qed

lemma byte_nibbles:
  fixes m :: nat
  shows "m mod 256 div 16 = m div 16 mod 16" "m mod 256 mod 16 = m mod 16"
proof -
  have "m mod (16 * 16) = 16 * (m div 16 mod 16) + m mod 16"
    by (rule mod_mult2_eq)
  then show "m mod 256 div 16 = m div 16 mod 16"
    by simp
  show "m mod 256 mod 16 = m mod 16"
    by (rule mod_mod_cancel) simp
qed

text \<open>
  When the unsigned pattern of the pixel has eight hex digits, that is when its alpha byte
  is at least \<open>0x10\<close>, the four characters dropped are \<open>0x\<close> and the alpha digits, and
  what is left is the colour string of the low three bytes.
\<close>

lemma decode_wide_alpha:
  assumes "2 ^ 28 \<le> unat (w :: 32 word)"
  shows "drop 4 (intToHex (sint w)) =
    colorHex (drop_bit 16 (sint w) AND 255, drop_bit 8 (sint w) AND 255, sint w AND 255)"
proof -
  define n where "n = unat w"
  have "unat w < 2 ^ LENGTH(32)"
    by (rule unsigned_less)
  then have b: "16 ^ 7 \<le> n" "n < 16 ^ 8"
    using assms by (simp_all add: n_def)
  have u: "uint w = int n"
    unfolding n_def by (rule uint_nat)
  have r: "drop_bit 16 (sint w) AND 255 = int (n div 65536 mod 256)"
    using byte_of_sint [of 16 w] by (simp only: u) (simp add: zdiv_int zmod_int)
  have g: "drop_bit 8 (sint w) AND 255 = int (n div 256 mod 256)"
    using byte_of_sint [of 8 w] by (simp only: u) (simp add: zdiv_int zmod_int)
  have bl: "sint w AND 255 = int (n mod 256)"
    using byte_of_sint [of 0 w] by (simp only: u) (simp add: zmod_int)
  have e: "n div 65536 div 16 = n div 1048576" "n div 256 div 16 = n div 4096"
    by (simp_all add: div_mult2_eq [symmetric])
  have "drop 4 (intToHex (sint w)) = drop 2 (hexdigits n)"
    by (simp add: intToHex_sint n_def)
  also have "\<dots> = [hexchar (n div 16 ^ 5 mod 16),
     hexchar (n div 16 ^ 4 mod 16), hexchar (n div 16 ^ 3 mod 16),
     hexchar (n div 16 ^ 2 mod 16), hexchar (n div 16 mod 16), hexchar (n mod 16)]"
    by (simp only: hexdigits_eight [OF b] drop_Suc_Cons drop_0 numeral_2_eq_2)
  also have "\<dots> = colorHex (int (n div 65536 mod 256), int (n div 256 mod 256),
      int (n mod 256))"
    by (simp only: colorHex_def prod.case) (simp add: fmt02x_byte byte_nibbles e)
  finally show ?thesis
    by (simp only: r g bl)
qed

text \<open>
  C5 fails on the code. \<open>fromJopFile\<close> drops the first four characters of
  \<open>intToHex(pixel)\<close>, which are \<open>0x\<close> and the two alpha digits only when the unsigned
  pattern has eight hex digits. The pixel integer 16711680 (pattern \<open>0x00FF0000\<close>, alpha
  0) has the low three bytes \<open>(255, 0, 0)\<close>, whose colour string is \<open>ff0000\<close>, but the
  decoder returns the four-character string \<open>0000\<close>.
\<close>

theorem decode_small_alpha:
  "map_sum id pixels
     (fromJopFile clock \<lparr>nbt_generation = g, nbt_ct = Some (word_of_int (canvasValue c)),
        nbt_pixels = Some [word_of_int 16711680], nbt_v = v, nbt_author = Some a,
        nbt_name = Some n, nbt_title = Some t\<rparr>) = Inr [''0000'']
   \<and> sint (word_of_int 16711680 :: 32 word) = 16711680
   \<and> colorHex (drop_bit 16 (16711680 :: int) AND 255, drop_bit 8 (16711680 :: int) AND 255,
         (16711680 :: int) AND 255) = ''ff0000''"
  by (simp add: fromJopFile_def canvasOfValue_canvasValue JopImage_init_def intToHex_def
      hex_def hexdigits.simps hexchar_def colorHex_def fmt02x_def drop_bit_eq_div)

section \<open>JopMultiBlockImage.py\<close>

text \<open>
  A grid object has the three attributes its constructor assigns. Reading an attribute
  looks at the instance first and then at the class, which defines one constant and the
  methods; a name found in neither raises \<open>AttributeError\<close>.
\<close>

record JopMultiBlockImage =
  mb_author :: string
  mb_title :: string
  mb_imageGrid :: "JopImage list list"

datatype attr = AttrStr string | AttrInt int | AttrGrid "JopImage list list" | AttrMethod

definition MAX_RAND_TIMESTAMP :: int where
  "MAX_RAND_TIMESTAMP = 10000"

definition class_methods :: "string list" where
  "class_methods =
     [''__init__'', ''fromImage'', ''fromImageFile'', ''__str__'', ''__repr__'',
      ''generatePaintingId'', ''saveImage'', ''saveImageGrid'', ''saveJopImageGrid'',
      ''areNamesValid'', ''_getPathParts'']"

definition getattr :: "JopMultiBlockImage \<Rightarrow> string \<Rightarrow> error + attr" where
  "getattr self a =
     (if a = ''author'' then Inr (AttrStr (mb_author self))
      else if a = ''title'' then Inr (AttrStr (mb_title self))
      else if a = ''imageGrid'' then Inr (AttrGrid (mb_imageGrid self))
      else if a = ''_MAX_RAND_TIMESTAMP'' then Inr (AttrInt MAX_RAND_TIMESTAMP)
      else if a \<in> set class_methods then Inr AttrMethod
      else Inl AttributeError)"

text \<open>
  String conversion as the f-strings use it. \<open>str\<close> of an enum member is its qualified
  name; \<open>str\<close> of a list is the \<open>repr\<close> of its items between brackets. Python's \<open>repr\<close>
  of a string (quoting and escapes) is the parameter \<open>repr_str\<close>.
\<close>

fun canvas_str :: "JopCanvasType \<Rightarrow> string" where
  "canvas_str SMALL = ''JopCanvasType.SMALL''"
| "canvas_str LARGE = ''JopCanvasType.LARGE''"
| "canvas_str LONG = ''JopCanvasType.LONG''"
| "canvas_str TALL = ''JopCanvasType.TALL''"

fun join :: "string \<Rightarrow> string list \<Rightarrow> string" where
  "join sep [] = []"
| "join sep [s] = s"
| "join sep (s # t # ts) = s @ sep @ join sep (t # ts)"

definition list_str :: "string list \<Rightarrow> string" where
  "list_str items = ''['' @ join '', '' items @ '']''"

definition JopImage_str :: "(string \<Rightarrow> string) \<Rightarrow> JopImage \<Rightarrow> string" where
  "JopImage_str repr_str self =
     ''JopImage('' @ canvas_str (canvasType self) @ '', '' @ author self @ '', ''
       @ title self @ '', '' @ list_str (map repr_str (pixels self)) @ '', ''
       @ name self @ '')''"

fun attr_str :: "(string \<Rightarrow> string) \<Rightarrow> attr \<Rightarrow> string" where
  "attr_str repr_str (AttrStr s) = s"
| "attr_str repr_str (AttrInt n) = str_int n"
| "attr_str repr_str (AttrGrid g) =
     list_str (map (\<lambda>row. list_str (map (JopImage_str repr_str) row)) g)"
| "attr_str repr_str AttrMethod = ''<bound method>''"

text \<open>
  \<open>__str__\<close> evaluates \<open>self.name\<close>, \<open>self.author\<close>, \<open>self.title\<close> and
  \<open>self.imageGrid\<close> in that order; \<open>__repr__\<close> calls \<open>__str__\<close>.
\<close>

definition JopMultiBlockImage_str ::
  "(string \<Rightarrow> string) \<Rightarrow> JopMultiBlockImage \<Rightarrow> error + string" where
  "JopMultiBlockImage_str repr_str self =
     (case getattr self ''name'' of
        Inl e \<Rightarrow> Inl e
      | Inr n \<Rightarrow>
          (case getattr self ''author'' of
             Inl e \<Rightarrow> Inl e
           | Inr a \<Rightarrow>
               (case getattr self ''title'' of
                  Inl e \<Rightarrow> Inl e
                | Inr t \<Rightarrow>
                    (case getattr self ''imageGrid'' of
                       Inl e \<Rightarrow> Inl e
                     | Inr g \<Rightarrow>
                         Inr (''JopMultiBlockImage('' @ attr_str repr_str n @ '', ''
                              @ attr_str repr_str a @ '', '' @ attr_str repr_str t @ '', ''
                              @ attr_str repr_str g @ '')'')))))"

definition JopMultiBlockImage_repr ::
  "(string \<Rightarrow> string) \<Rightarrow> JopMultiBlockImage \<Rightarrow> error + string" where
  "JopMultiBlockImage_repr repr_str self = JopMultiBlockImage_str repr_str self"

text \<open>
  \<open>areNamesValid\<close>: the list of all names has as many entries as the set of them.
\<close>

definition areNamesValid :: "JopMultiBlockImage \<Rightarrow> bool" where
  "areNamesValid self =
     (let names = map name (concat (mb_imageGrid self))
      in length names = card (set names))"

text \<open>
  \<open>__init__\<close> assigns the three attributes and prints a warning when the names are not
  unique; the printed lines are returned beside the object.
\<close>

definition names_warning :: string where
  "names_warning = ''The names of JopImage objects in the grid are not unique!''
     @ [CHR 0x0A] @ ''Issues will occur when importing into Minecraft!''"

definition JopMultiBlockImage_init ::
  "string \<Rightarrow> string \<Rightarrow> JopImage list list \<Rightarrow> JopMultiBlockImage \<times> string list" where
  "JopMultiBlockImage_init auth ttl grid =
     (let self = \<lparr> mb_author = auth, mb_title = ttl, mb_imageGrid = grid \<rparr>
      in (self, if \<not> areNamesValid self then [names_warning] else []))"

lemma getattr_name: "getattr self ''name'' = Inl AttributeError"
  by (simp add: getattr_def class_methods_def)

text \<open>
  C10. For every grid object, built by the constructor or otherwise, and whatever the grid
  holds, \<open>__str__\<close> and \<open>__repr__\<close> raise \<open>AttributeError\<close>: the attribute \<open>name\<close> is
  read first, and neither the constructor nor the class defines it.
\<close>

theorem str_always_raises:
  "JopMultiBlockImage_str repr_str (fst (JopMultiBlockImage_init auth ttl grid))
     = Inl AttributeError
   \<and> JopMultiBlockImage_repr repr_str (fst (JopMultiBlockImage_init auth ttl grid))
     = Inl AttributeError
   \<and> JopMultiBlockImage_str repr_str self = Inl AttributeError
   \<and> JopMultiBlockImage_repr repr_str self = Inl AttributeError
   \<and> getattr (fst (JopMultiBlockImage_init auth ttl grid)) ''author'' = Inr (AttrStr auth)
   \<and> getattr (fst (JopMultiBlockImage_init auth ttl grid)) ''title'' = Inr (AttrStr ttl)
   \<and> getattr (fst (JopMultiBlockImage_init auth ttl grid)) ''imageGrid'' = Inr (AttrGrid grid)"
  by (simp add: JopMultiBlockImage_str_def JopMultiBlockImage_repr_def getattr_name
      JopMultiBlockImage_init_def Let_def getattr_def class_methods_def)

theorem str_always_raises_witness:
  "JopMultiBlockImage_str id (fst (JopMultiBlockImage_init ''ann'' ''dusk'' [[demo_lower]]))
     = Inl AttributeError"
  by (rule str_always_raises [THEN conjunct1])

section \<open>Building a grid of canvases\<close>

text \<open>Indexing a sequence: a negative index counts from the end, out of range raises.\<close>

definition item :: "'a list \<Rightarrow> int \<Rightarrow> error + 'a" where
  "item xs i =
     (if 0 \<le> i \<and> i < int (length xs) then Inr (xs ! nat i)
      else if - int (length xs) \<le> i \<and> i < 0 then Inr (xs ! nat (i + int (length xs)))
      else Inl IndexError)"

text \<open>\<open>range(n)\<close>: empty when \<open>n\<close> is not positive.\<close>

definition range_py :: "int \<Rightarrow> int list" where
  "range_py n = map int [0 ..< nat n]"

text \<open>
  \<open>2 ** int(np.ceil(np.log2(n)))\<close>: the least power of two that is at least \<open>n\<close>, for
  \<open>0 < n < 2 ^ 31\<close> (Pillow's sizes are 32-bit, and in that range the float logarithm of
  a number that is not a power of two is not an integer). \<open>np.log2(0)\<close> is minus infinity,
  which \<open>int\<close> refuses with \<open>OverflowError\<close>; the logarithm of a negative number is
  \<open>nan\<close>, refused with \<open>ValueError\<close>.
\<close>

function pow2_from :: "nat \<Rightarrow> nat \<Rightarrow> nat" where
  "pow2_from p n = (if n \<le> p \<or> p = 0 then p else pow2_from (2 * p) n)"
  by pat_completeness auto
termination
  by (relation "measure (\<lambda>(p, n). n - p)") auto

declare pow2_from.simps [simp del]

definition pow2_ceil :: "int \<Rightarrow> error + int" where
  "pow2_ceil n =
     (if n < 0 then Inl ValueError else if n = 0 then Inl OverflowError
      else Inr (int (pow2_from 1 (nat n))))"

text \<open>
  \<open>constrainToPowerOfTwo\<close>. \<open>image.resize\<close> is Pillow's; it is the parameter \<open>resize\<close>,
  and the unchanged copy is the image itself.
\<close>

definition constrainToPowerOfTwo ::
  "(Image \<Rightarrow> int \<times> int \<Rightarrow> Image) \<Rightarrow> Image \<Rightarrow> error + Image" where
  "constrainToPowerOfTwo resize img =
     (let width = fst (im_size img); height = snd (im_size img)
      in if width AND (width - 1) = 0 \<and> height AND (height - 1) = 0 then Inr img
         else (case pow2_ceil width of
                 Inl e \<Rightarrow> Inl e
               | Inr newWidth \<Rightarrow>
                   (case pow2_ceil height of
                      Inl e \<Rightarrow> Inl e
                    | Inr newHeight \<Rightarrow> Inr (resize img (newWidth, newHeight)))))"

text \<open>
  \<open>generatePaintingId\<close>. The two random draws are parameters: \<open>uuid\<close> is the string of
  \<open>uuid4()\<close> and \<open>rnd\<close> the value of \<open>random.randint(0, 10000)\<close>.
\<close>

definition generatePaintingId :: "string \<Rightarrow> string \<Rightarrow> string \<Rightarrow> int \<Rightarrow> int" where
  "generatePaintingId ttl auth uuid rnd =
     stringToAsciiInt (ttl @ '' '' @ auth) + stringToAsciiInt uuid + rnd"

text \<open>
  The two nested loops of \<open>JopMultiBlockImage.fromImage\<close>, threading the counter
  \<open>curId\<close>: the body runs once per cell and the counter goes up by one after it; an
  exception in the body ends both loops.
\<close>

fun loop_row :: "(int \<Rightarrow> int \<Rightarrow> error + 'a) \<Rightarrow> int list \<Rightarrow> int \<Rightarrow> error + 'a list \<times> int" where
  "loop_row body [] curId = Inr ([], curId)"
| "loop_row body (x # xs) curId =
     (case body x curId of
        Inl e \<Rightarrow> Inl e
      | Inr seg \<Rightarrow>
          (case loop_row body xs (curId + 1) of
             Inl e \<Rightarrow> Inl e
           | Inr (segs, c) \<Rightarrow> Inr (seg # segs, c)))"

fun loop_grid ::
  "(int \<Rightarrow> int \<Rightarrow> int \<Rightarrow> error + 'a) \<Rightarrow> int list \<Rightarrow> int list \<Rightarrow> int
     \<Rightarrow> error + 'a list list \<times> int" where
  "loop_grid body [] xs curId = Inr ([], curId)"
| "loop_grid body (y # ys) xs curId =
     (case loop_row (body y) xs curId of
        Inl e \<Rightarrow> Inl e
      | Inr (row, c) \<Rightarrow>
          (case loop_grid body ys xs c of
             Inl e \<Rightarrow> Inl e
           | Inr (rows, c') \<Rightarrow> Inr (row # rows, c')))"

text \<open>The body of the inner loop, for the cell in column \<open>x\<close> of row \<open>y\<close>.\<close>

definition grid_cell ::
  "int \<Rightarrow> Image \<Rightarrow> (int \<times> int) list list \<Rightarrow> int \<times> int \<Rightarrow> JopCanvasType
     \<Rightarrow> string \<Rightarrow> string \<Rightarrow> int \<Rightarrow> int \<Rightarrow> int \<Rightarrow> error + JopImage" where
  "grid_cell clock imageSized gridIndicies tileSize canvas ttl auth y x curId =
     (case item gridIndicies y of
        Inl e \<Rightarrow> Inl e
      | Inr gridRow \<Rightarrow>
          (case item gridRow x of
             Inl e \<Rightarrow> Inl e
           | Inr gridTopLeft \<Rightarrow>
               (case crop imageSized
                       (fst gridTopLeft, snd gridTopLeft,
                        fst gridTopLeft + fst tileSize, snd gridTopLeft + snd tileSize) of
                  Inl e \<Rightarrow> Inl e
                | Inr segmentImage \<Rightarrow>
                    fromImage clock segmentImage canvas
                      (ttl @ '' ('' @ str_int x @ '', '' @ str_int y @ '')'')
                      auth
                      (Some (ROOT_UUID @ ''_'' @ str_int curId)))))"

definition JopMultiBlockImage_fromImage ::
  "(Image \<Rightarrow> int \<times> int \<Rightarrow> Image) \<Rightarrow> int \<Rightarrow> string \<Rightarrow> int \<Rightarrow> int \<times> int \<Rightarrow> Image
     \<Rightarrow> string \<Rightarrow> string \<Rightarrow> JopCanvasType \<Rightarrow> error + JopMultiBlockImage \<times> string list" where
  "JopMultiBlockImage_fromImage resize clock uuid rnd gridSize img ttl auth canvas =
     (case constrainToPowerOfTwo resize img of
        Inl e \<Rightarrow> Inl e
      | Inr imageSized \<Rightarrow>
          (let imageFullSize = im_size imageSized
           in if fst gridSize = 0 \<or> snd gridSize = 0 then Inl ZeroDivisionError
              else
                (let tileSize = (fst imageFullSize div fst gridSize,
                                 snd imageFullSize div snd gridSize)
                 in case tileGridIndices imageFullSize tileSize True of
                      Inl e \<Rightarrow> Inl e
                    | Inr gridIndicies \<Rightarrow>
                        (let rootId = generatePaintingId ttl auth uuid rnd
                         in case loop_grid
                                   (grid_cell clock imageSized gridIndicies tileSize canvas
                                      ttl auth)
                                   (range_py (snd gridSize)) (range_py (fst gridSize))
                                   rootId of
                              Inl e \<Rightarrow> Inl e
                            | Inr (imageGrid, curId) \<Rightarrow>
                                Inr (JopMultiBlockImage_init auth ttl imageGrid)))))"

lemma loop_row_names:
  assumes "\<And>x c r. body x c = Inr r \<Longrightarrow> nm r = f c"
    and "loop_row body xs c = Inr (segs, c')"
  shows "c' = c + int (length xs) \<and> length segs = length xs
    \<and> map nm segs = map (\<lambda>i. f (c + int i)) [0 ..< length xs]"
  using assms(2)
proof (induction xs arbitrary: c segs)
  case Nil
  then show ?case
    by simp
next
  case (Cons x xs)
  from Cons.prems obtain r rest where
    r: "body x c = Inr r" and rest: "loop_row body xs (c + 1) = Inr (rest, c')"
    and segs: "segs = r # rest"
    by (auto split: sum.splits prod.splits)
  from Cons.IH [OF rest] have ih: "c' = c + 1 + int (length xs)" "length rest = length xs"
    "map nm rest = map (\<lambda>i. f (c + 1 + int i)) [0 ..< length xs]"
    by simp_all
  have "map (\<lambda>i. f (c + int i)) [0 ..< Suc (length xs)]
      = f c # map (\<lambda>i. f (c + int (Suc i))) [0 ..< length xs]"
    by (simp only: map_upt_Suc) simp
  also have "\<dots> = f c # map (\<lambda>i. f (c + 1 + int i)) [0 ..< length xs]"
  proof -
    have "c + int (Suc i) = c + 1 + int i" for i
      by simp
    then show ?thesis
      by (simp only:)
  qed
  finally show ?case
    using ih assms(1) [OF r] by (simp add: segs del: upt_Suc)
qed

lemma loop_grid_names:
  assumes "\<And>y x c r. body y x c = Inr r \<Longrightarrow> nm r = f c"
    and "loop_grid body ys xs c = Inr (g, c')"
  shows "c' = c + int (length ys * length xs) \<and> length g = length ys
    \<and> (\<forall>row \<in> set g. length row = length xs)
    \<and> map nm (concat g) = map (\<lambda>k. f (c + int k)) [0 ..< length ys * length xs]"
  using assms(2)
proof (induction ys arbitrary: c g)
  case Nil
  then show ?case
    by simp
next
  case (Cons y ys)
  let ?n = "length xs" and ?m = "length ys"
  from Cons.prems obtain row c1 rows where
    row: "loop_row (body y) xs c = Inr (row, c1)"
    and rows: "loop_grid body ys xs c1 = Inr (rows, c')"
    and g: "g = row # rows"
    by (auto split: sum.splits prod.splits)
  from loop_row_names [of "body y" nm f, OF assms(1) row]
  have r: "c1 = c + int ?n" "length row = ?n"
    "map nm row = map (\<lambda>i. f (c + int i)) [0 ..< ?n]"
    by simp_all
  from Cons.IH [OF rows]
  have ih: "c' = c1 + int (?m * ?n)" "length rows = ?m"
    "\<forall>row \<in> set rows. length row = ?n"
    "map nm (concat rows) = map (\<lambda>k. f (c1 + int k)) [0 ..< ?m * ?n]"
    by simp_all
  have "[0 ..< ?n + ?m * ?n] = [0 ..< ?n] @ map (\<lambda>i. i + ?n) [0 ..< ?m * ?n]"
    by (simp only: map_add_upt upt_add_eq_append [OF le0] add.commute [of "?m * ?n" ?n])
  then have "map (\<lambda>k. f (c + int k)) [0 ..< ?n + ?m * ?n]
      = map (\<lambda>i. f (c + int i)) [0 ..< ?n]
        @ map (\<lambda>k. f (c + int (k + ?n))) [0 ..< ?m * ?n]"
    by (simp add: comp_def)
  also have "map (\<lambda>k. f (c + int (k + ?n))) [0 ..< ?m * ?n]
      = map (\<lambda>k. f (c1 + int k)) [0 ..< ?m * ?n]"
  proof -
    have "c + int (k + ?n) = c1 + int k" for k
      by (simp add: r(1))
    then show ?thesis
      by (simp only:)
  qed
  finally have "map nm (concat g) = map (\<lambda>k. f (c + int k)) [0 ..< ?n + ?m * ?n]"
    by (simp add: g r(3) ih(4))
  moreover have "c' = c + int (?n + ?m * ?n)"
    by (simp add: ih(1) r(1))
  ultimately show ?case
    using r(2) ih(2,3) by (simp add: g)
qed

lemma fromImage_name:
  "fromImage clock img canvas ttl auth (Some n) = Inr j \<Longrightarrow> name j = n"
  by (auto simp: fromImage_def Let_def JopImage_init_def split: sum.splits)

lemma grid_cell_name:
  "grid_cell clock imageSized gridIndicies tileSize canvas ttl auth y x c = Inr r
     \<Longrightarrow> name r = ROOT_UUID @ ''_'' @ str_int c"
  by (auto simp: grid_cell_def split: sum.splits dest: fromImage_name)

section \<open>Decimal strings of distinct integers differ\<close>

lemma decchar_inj: "d < 10 \<Longrightarrow> e < 10 \<Longrightarrow> decchar d = decchar e \<Longrightarrow> d = e"
  unfolding decchar_def by (subst (asm) nth_eq_iff_index_eq) simp_all

lemma decchar_no_minus: "d < 10 \<Longrightarrow> decchar d \<noteq> CHR ''-''"
proof -
  assume "d < 10"
  then have "decchar d \<in> set ''0123456789''"
    unfolding decchar_def by (intro nth_mem) simp
  then show ?thesis
    by auto
qed

lemma decdigits_nonempty: "decdigits n \<noteq> []"
  by (subst decdigits.simps) simp

lemma decdigits_no_minus: "CHR ''-'' \<notin> set (decdigits n)"
proof (induction n rule: decdigits.induct)
  case (1 n)
  show ?case
  proof (cases "n < 10")
    case True
    then show ?thesis
      using decchar_no_minus [of n] by (subst decdigits.simps) auto
  next
    case False
    then show ?thesis
      using "1.IH" decchar_no_minus [of "n mod 10"] by (subst decdigits.simps) auto
  qed
qed

lemma decdigits_inj: "decdigits n = decdigits m \<Longrightarrow> n = m"
proof (induction n arbitrary: m rule: decdigits.induct)
  case (1 n)
  have long: "length (decdigits k) \<ge> 2" if "\<not> k < 10" for k
  proof -
    from that have "decdigits k = decdigits (k div 10) @ [decchar (k mod 10)]"
      by (subst decdigits.simps) simp
    moreover have "length (decdigits (k div 10)) \<ge> 1"
      using decdigits_nonempty [of "k div 10"] by (cases "decdigits (k div 10)") simp_all
    ultimately show ?thesis
      by simp
  qed
  have short: "decdigits k = [decchar k]" if "k < 10" for k
    using that by (subst decdigits.simps) simp
  show ?case
  proof (cases "n < 10")
    case n: True
    show ?thesis
    proof (cases "m < 10")
      case True
      with n "1.prems" show ?thesis
        using decchar_inj [of n m] by (simp add: short)
    next
      case False
      have "length (decdigits n) = 1"
        by (simp add: short [OF n])
      moreover from "1.prems" have "length (decdigits n) = length (decdigits m)"
        by (rule arg_cong)
      ultimately show ?thesis
        using long [OF False] by linarith
    qed
  next
    case n: False
    show ?thesis
    proof (cases "m < 10")
      case m: True
      have "length (decdigits m) = 1"
        by (simp add: short [OF m])
      moreover from "1.prems" have "length (decdigits n) = length (decdigits m)"
        by (rule arg_cong)
      ultimately show ?thesis
        using long [OF n] by linarith
    next
      case False
      have en: "decdigits n = decdigits (n div 10) @ [decchar (n mod 10)]"
        using n by (subst decdigits.simps) simp
      have em: "decdigits m = decdigits (m div 10) @ [decchar (m mod 10)]"
        using False by (subst decdigits.simps) simp
      from "1.prems" en em have
        a: "decdigits (n div 10) = decdigits (m div 10)"
        and b: "decchar (n mod 10) = decchar (m mod 10)"
        by simp_all
      from "1.IH" [OF n a] have "n div 10 = m div 10" .
      moreover from b have "n mod 10 = m mod 10"
        by (intro decchar_inj) simp_all
      ultimately show ?thesis
        by (metis div_mult_mod_eq)
    qed
  qed
qed

lemma str_int_inj: "str_int a = str_int b \<Longrightarrow> a = b"
proof -
  assume e: "str_int a = str_int b"
  have h: "hd (decdigits k) \<noteq> CHR ''-''" for k
    using decdigits_no_minus [of k] decdigits_nonempty [of k]
    by (cases "decdigits k") auto
  show ?thesis
  proof (cases "a < 0")
    case a: True
    show ?thesis
    proof (cases "b < 0")
      case True
      with a e have "decdigits (nat (- a)) = decdigits (nat (- b))"
        by (simp add: str_int_def)
      then have "nat (- a) = nat (- b)"
        by (rule decdigits_inj)
      with a True show ?thesis
        by simp
    next
      case False
      with a e h [of "nat b"] show ?thesis
        by (auto simp: str_int_def dest: arg_cong [where f = hd])
    qed
  next
    case a: False
    show ?thesis
    proof (cases "b < 0")
      case True
      with a e h [of "nat a"] show ?thesis
        by (auto simp: str_int_def dest: arg_cong [where f = hd])
    next
      case False
      with a e have "decdigits (nat a) = decdigits (nat b)"
        by (simp add: str_int_def)
      then have "nat a = nat b"
        by (rule decdigits_inj)
      with a False show ?thesis
        by simp
    qed
  qed
qed

section \<open>Names within one grid\<close>

text \<open>A square source whose sides are a power of two, and a stand-in for Pillow's resize.\<close>

definition demo_square :: Image where
  "demo_square = \<lparr> im_size = (32, 32),
     im_pixel = (\<lambda>x y. (word_of_int x, word_of_int y, 0)) \<rparr>"

definition demo_resize :: "Image \<Rightarrow> int \<times> int \<Rightarrow> Image" where
  "demo_resize im sz = im\<lparr>im_size := sz\<rparr>"

definition demo_uuid :: string where
  "demo_uuid = ''123e4567-e89b-42d3-a456-426614174000''"

lemma names_distinct:
  "distinct (map (\<lambda>k. ROOT_UUID @ ''_'' @ str_int (r + int k)) [0 ..< n])"
proof -
  have "inj_on (\<lambda>k. ROOT_UUID @ ''_'' @ str_int (r + int k)) (set [0 ..< n])"
    by (rule inj_onI) (auto dest: str_int_inj)
  then show ?thesis
    by (simp add: distinct_map)
qed

text \<open>
  C6. Whenever \<open>JopMultiBlockImage.fromImage\<close> returns a grid for the grid size
  \<open>(w, h)\<close>, the grid has \<open>h\<close> rows of \<open>w\<close> cells, and the cell visited at row-major
  index \<open>k\<close> has the name \<open><uuid>_<rootId + k>\<close>, where \<open>rootId\<close> is the value of
  \<open>generatePaintingId\<close> for any two random draws. So all names of the grid differ, the
  validity check holds and the constructor prints no warning. The source image has 32-bit
  sizes and \<open>resize\<close> returns the size asked for, as Pillow does.
\<close>

theorem grid_names_sequential:
  assumes "JopMultiBlockImage_fromImage resize clock uuid rnd (w, h) img ttl auth canvas
      = Inr (mb, out)"
    and "\<forall>im sz. im_size (resize im sz) = sz"
    and "0 \<le> fst (im_size img)" "fst (im_size img) < 2 ^ 31"
    and "0 \<le> snd (im_size img)" "snd (im_size img) < 2 ^ 31"
  shows "map name (concat (mb_imageGrid mb)) =
      map (\<lambda>k. ROOT_UUID @ ''_'' @ str_int (generatePaintingId ttl auth uuid rnd + int k))
        [0 ..< nat w * nat h]
    \<and> length (mb_imageGrid mb) = nat h
    \<and> (\<forall>row \<in> set (mb_imageGrid mb). length row = nat w)
    \<and> distinct (map name (concat (mb_imageGrid mb)))
    \<and> areNamesValid mb \<and> out = []"
proof -
  let ?root = "generatePaintingId ttl auth uuid rnd"
  from assms(1) obtain imageSized gridIndicies g c where
    l: "loop_grid
          (grid_cell clock imageSized gridIndicies
             (fst (im_size imageSized) div w, snd (im_size imageSized) div h) canvas ttl auth)
          (range_py h) (range_py w) ?root = Inr (g, c)"
    and r: "JopMultiBlockImage_init auth ttl g = (mb, out)"
    by (auto simp: JopMultiBlockImage_fromImage_def Let_def split: sum.splits if_splits)
  from loop_grid_names [of _ name "\<lambda>c. ROOT_UUID @ ''_'' @ str_int c", OF grid_cell_name l]
  have n: "length g = nat h" "\<forall>row \<in> set g. length row = nat w"
    "map name (concat g) =
       map (\<lambda>k. ROOT_UUID @ ''_'' @ str_int (?root + int k)) [0 ..< nat h * nat w]"
    by (simp_all add: range_py_def)
  have d: "distinct (map name (concat g))"
    unfolding n(3) by (rule names_distinct)
  from distinct_card [OF d]
  have v: "areNamesValid \<lparr>mb_author = auth, mb_title = ttl, mb_imageGrid = g\<rparr>"
    unfolding areNamesValid_def Let_def by (simp del: set_map set_concat)
  from r v have mb: "mb = \<lparr>mb_author = auth, mb_title = ttl, mb_imageGrid = g\<rparr>" "out = []"
    by (simp_all add: JopMultiBlockImage_init_def Let_def)
  show ?thesis
    using n d v by (simp add: mb mult.commute)
qed

lemma loop_row_succeeds:
  assumes "\<And>x c. x \<in> set xs \<Longrightarrow> \<exists>r. body x c = Inr r"
  shows "\<exists>segs c'. loop_row body xs c = Inr (segs, c')"
  using assms
proof (induction xs arbitrary: c)
  case Nil
  then show ?case
    by simp
next
  case (Cons x xs)
  from Cons.prems [of x c] obtain r where r: "body x c = Inr r"
    by auto
  from Cons.IH [of "c + 1"] Cons.prems obtain segs c' where
    "loop_row body xs (c + 1) = Inr (segs, c')"
    by auto
  with r show ?case
    by simp
qed

lemma loop_grid_succeeds:
  assumes "\<And>y x c. y \<in> set ys \<Longrightarrow> x \<in> set xs \<Longrightarrow> \<exists>r. body y x c = Inr r"
  shows "\<exists>g c'. loop_grid body ys xs c = Inr (g, c')"
  using assms
proof (induction ys arbitrary: c)
  case Nil
  then show ?case
    by simp
next
  case (Cons y ys)
  from loop_row_succeeds [of xs "body y" c] Cons.prems obtain row c1 where
    row: "loop_row (body y) xs c = Inr (row, c1)"
    by auto
  from Cons.IH [of c1] Cons.prems obtain rows c' where
    "loop_grid body ys xs c1 = Inr (rows, c')"
    by auto
  with row show ?case
    by simp
qed

lemma grid_cell_succeeds:
  assumes "item gridIndicies y = Inr gridRow" "item gridRow x = Inr origin"
    and "0 < fst tileSize div fst (getSize canvas)"
    and "0 < snd tileSize div snd (getSize canvas)"
  shows "\<exists>r. grid_cell clock imageSized gridIndicies tileSize canvas ttl auth y x c = Inr r"
proof -
  have t: "0 \<le> fst tileSize" "0 \<le> snd tileSize"
    using assms(3,4) getSize_positive [of canvas]
    by (metis div_neg_pos_less0 not_less order_less_imp_le)+
  then obtain seg where seg:
    "crop imageSized (fst origin, snd origin, fst origin + fst tileSize,
       snd origin + snd tileSize) = Inr seg"
    "im_size seg = tileSize"
    by (simp add: crop_def)
  from fromImage_pixel_count [of seg canvas] assms(3,4) seg(2) obtain j where
    "fromImage clock seg canvas (ttl @ '' ('' @ str_int x @ '', '' @ str_int y @ '')'')
       auth (Some (ROOT_UUID @ ''_'' @ str_int c)) = Inr j"
    by metis
  then show ?thesis
    by (simp add: grid_cell_def assms(1,2) seg(1))
qed

lemma demo_grid_builds:
  "\<exists>mb out. JopMultiBlockImage_fromImage demo_resize 1700000000 demo_uuid 7 (2, 2)
      demo_square ''dusk'' ''ann'' SMALL = Inr (mb, out)"
proof -
  let ?G = "[[(0, 0), (16, 0)], [(0, 16), (16, 16 :: int)]] :: (int \<times> int) list list"
  have c: "constrainToPowerOfTwo demo_resize demo_square = Inr demo_square"
    by (simp add: constrainToPowerOfTwo_def demo_square_def)
  have g: "tileGridIndices (32, 32) (16, 16) True = Inr ?G"
    by (simp add: tileGridIndices_def arange_def upt_rec)
  have r: "range_py 2 = [0, 1]"
    by (simp add: range_py_def upt_rec)
  have "\<exists>r. grid_cell 1700000000 demo_square ?G (16, 16) SMALL ''dusk'' ''ann'' y x c = Inr r"
    if "y \<in> set [0, 1]" "x \<in> set [0, 1]" for y x c
  proof -
    from that(1) obtain row where row: "item ?G y = Inr row"
      "row = [(0, 0), (16, 0)] \<or> row = [(0, 16), (16, 16)]"
      by (auto simp: item_def)
    from that(2) row(2) obtain origin where "item row x = Inr origin"
      by (auto simp: item_def)
    with row(1) show ?thesis
      by (intro grid_cell_succeeds) simp_all
  qed
  then obtain grid c' where
    "loop_grid (grid_cell 1700000000 demo_square ?G (16, 16) SMALL ''dusk'' ''ann'')
       [0, 1] [0, 1] (generatePaintingId ''dusk'' ''ann'' demo_uuid 7) = Inr (grid, c')"
    using loop_grid_succeeds [of "[0, 1]" "[0, 1]"
        "grid_cell 1700000000 demo_square ?G (16, 16) SMALL ''dusk'' ''ann''"]
    by blast
  then show ?thesis
    by (simp add: JopMultiBlockImage_fromImage_def c r demo_square_def [THEN arg_cong, of im_size]
        g Let_def JopMultiBlockImage_init_def)
qed

theorem grid_names_sequential_witness:
  "\<exists>mb out. JopMultiBlockImage_fromImage demo_resize 1700000000 demo_uuid 7 (2, 2)
      demo_square ''dusk'' ''ann'' SMALL = Inr (mb, out)
    \<and> map name (concat (mb_imageGrid mb)) =
      map (\<lambda>k. ROOT_UUID @ ''_''
             @ str_int (generatePaintingId ''dusk'' ''ann'' demo_uuid 7 + int k))
        [0 ..< nat 2 * nat 2]
    \<and> distinct (map name (concat (mb_imageGrid mb)))
    \<and> areNamesValid mb \<and> out = []"
proof -
  from demo_grid_builds obtain mb out where
    b: "JopMultiBlockImage_fromImage demo_resize 1700000000 demo_uuid 7 (2, 2)
      demo_square ''dusk'' ''ann'' SMALL = Inr (mb, out)"
    by blast
  have s: "\<forall>im sz. im_size (demo_resize im sz) = sz"
    by (simp add: demo_resize_def)
  have z: "0 \<le> fst (im_size demo_square)" "fst (im_size demo_square) < 2 ^ 31"
    "0 \<le> snd (im_size demo_square)" "snd (im_size demo_square) < 2 ^ 31"
    by (simp_all add: demo_square_def)
  from grid_names_sequential [OF b s z] b show ?thesis
    by blast
qed

end
